theory Spec2Isabelle
  imports Complex_Main "HOL-Library.Multiset" "HOL-Library.Word"
begin

section \<open>Python values used by the scanner\<close>

text \<open>
  The exceptions that the scanner's own code and the socket calls it makes can raise.
  \<open>BlockingIOError\<close>, \<open>GaiError\<close> (\<open>socket.gaierror\<close>),
  \<open>ConnectionError\<close> and \<open>TimeoutError\<close> are subclasses of \<open>OSError\<close>
  (\<open>socket.error\<close> is \<open>OSError\<close> itself); every constructor is a subclass of
  \<open>Exception\<close>.
\<close>

datatype exn =
    BlockingIOError | GaiError | ConnectionError | TimeoutError | OtherOSError
  | ValueError | OverflowError

fun is_OSError :: "exn \<Rightarrow> bool" where
  "is_OSError ValueError = False"
| "is_OSError OverflowError = False"
| "is_OSError _ = True"

subsection \<open>\<open>range\<close> and slicing\<close>

text \<open>
  \<open>range(i, stop, step)\<close> for a positive and for a negative step, as the sequence of
  values the iterator yields; \<open>range\<close> raises \<open>ValueError\<close> when the step is zero.
\<close>

function py_range_pos :: "int \<Rightarrow> int \<Rightarrow> int \<Rightarrow> int list" where
  "py_range_pos i stop step =
     (if 0 < step \<and> i < stop then i # py_range_pos (i + step) stop step else [])"
  by pat_completeness auto
termination
  by (relation "measure (\<lambda>(i, stop, step). nat (stop - i))") auto

declare py_range_pos.simps [simp del]

function py_range_neg :: "int \<Rightarrow> int \<Rightarrow> int \<Rightarrow> int list" where
  "py_range_neg i stop step =
     (if step < 0 \<and> stop < i then i # py_range_neg (i + step) stop step else [])"
  by pat_completeness auto
termination
  by (relation "measure (\<lambda>(i, stop, step). nat (i - stop))") auto

declare py_range_neg.simps [simp del]

definition py_range :: "int \<Rightarrow> int \<Rightarrow> int \<Rightarrow> exn + int list" where
  "py_range start stop step =
     (if step = 0 then Inl ValueError
      else if 0 < step then Inr (py_range_pos start stop step)
      else Inr (py_range_neg start stop step))"

text \<open>
  \<open>xs[i:j]\<close>: each bound is clamped into \<open>0..len(xs)\<close>, a negative bound counting
  from the end; the slice is empty when the upper bound does not exceed the lower one.
\<close>

definition slice_index :: "nat \<Rightarrow> int \<Rightarrow> nat" where
  "slice_index n i = (if i < 0 then nat (max 0 (int n + i)) else min (nat i) n)"

definition py_slice :: "'a list \<Rightarrow> int \<Rightarrow> int \<Rightarrow> 'a list" where
  "py_slice xs i j =
     (let lo = slice_index (length xs) i; hi = slice_index (length xs) j
      in take (hi - lo) (drop lo xs))"

section \<open>Batching the port range\<close>

text \<open>
  \<^verbatim>\<open>
  def batch_ports(start, end, batch_size=100):
      ports = list(range(start, end + 1))
      return [ports[i:i + batch_size] for i in range(0, len(ports), batch_size)]
  \<close>
\<close>

definition batch_ports :: "int \<Rightarrow> int \<Rightarrow> int \<Rightarrow> exn + int list list" where
  "batch_ports start end batch_size =
     (let ports = py_range_pos start (end + 1) 1 in
      case py_range 0 (int (length ports)) batch_size of
        Inl e \<Rightarrow> Inl e
      | Inr starts \<Rightarrow> Inr (map (\<lambda>i. py_slice ports i (i + batch_size)) starts))"

section \<open>Text: decoding and trimming\<close>

type_synonym byte = "8 word"

text \<open>A Python \<open>str\<close> obtained by decoding is a sequence of Unicode code points.\<close>

type_synonym pystr = "nat list"

text \<open>
  \<open>bytes.decode('utf-8', errors='ignore')\<close>. A well-formed sequence yields its code
  point. An ill-formed one is dropped up to, and not including, the first byte that
  cannot continue it, where decoding resumes; a sequence cut off by the end of the
  data is dropped whole. Overlong forms (lead bytes \<open>C0\<close>, \<open>C1\<close>, \<open>E0\<close> followed
  by less than \<open>A0\<close>, \<open>F0\<close> followed by less than \<open>90\<close>), surrogates (\<open>ED\<close>
  followed by \<open>A0\<close> or more) and values above \<open>10FFFF\<close> are ill-formed.
\<close>

definition is_cont :: "byte \<Rightarrow> bool" where
  "is_cont c = (128 \<le> unat c \<and> unat c \<le> 191)"

definition second_ok :: "byte \<Rightarrow> byte \<Rightarrow> bool" where
  "second_ok b c =
     (is_cont c \<and>
      (if unat b = 224 then 160 \<le> unat c
       else if unat b = 237 then unat c \<le> 159
       else if unat b = 240 then 144 \<le> unat c
       else if unat b = 244 then unat c \<le> 143
       else True))"

text \<open>
  Decoding at a lead byte \<open>b\<close> followed by \<open>bs\<close>: the code point, if the sequence is
  well formed, and how many bytes of \<open>bs\<close> are passed over before decoding resumes.
\<close>

definition utf8_first :: "byte \<Rightarrow> byte list \<Rightarrow> nat option \<times> nat" where
  "utf8_first b bs =
     (if unat b < 128 then (Some (unat b), 0)
      else if 194 \<le> unat b \<and> unat b \<le> 223 then
        (case bs of
           [] \<Rightarrow> (None, 0)
         | c1 # r1 \<Rightarrow>
             if is_cont c1 then (Some ((unat b - 192) * 64 + (unat c1 - 128)), 1)
             else (None, 0))
      else if 224 \<le> unat b \<and> unat b \<le> 239 then
        (case bs of
           [] \<Rightarrow> (None, 0)
         | c1 # r1 \<Rightarrow>
             if second_ok b c1 then
               (case r1 of
                  [] \<Rightarrow> (None, 1)
                | c2 # r2 \<Rightarrow>
                    if is_cont c2 then
                      (Some ((unat b - 224) * 4096 + (unat c1 - 128) * 64 + (unat c2 - 128)), 2)
                    else (None, 1))
             else (None, 0))
      else if 240 \<le> unat b \<and> unat b \<le> 244 then
        (case bs of
           [] \<Rightarrow> (None, 0)
         | c1 # r1 \<Rightarrow>
             if second_ok b c1 then
               (case r1 of
                  [] \<Rightarrow> (None, 1)
                | c2 # r2 \<Rightarrow>
                    if is_cont c2 then
                      (case r2 of
                         [] \<Rightarrow> (None, 2)
                       | c3 # r3 \<Rightarrow>
                           if is_cont c3 then
                             (Some ((unat b - 240) * 262144 + (unat c1 - 128) * 4096
                                      + (unat c2 - 128) * 64 + (unat c3 - 128)), 3)
                           else (None, 2))
                    else (None, 1))
             else (None, 0))
      else (None, 0))"

fun utf8_ignore :: "byte list \<Rightarrow> pystr" where
  "utf8_ignore [] = []"
| "utf8_ignore (b # bs) =
     (case utf8_first b bs of
        (None, k) \<Rightarrow> utf8_ignore (drop k bs)
      | (Some c, k) \<Rightarrow> c # utf8_ignore (drop k bs))"

text \<open>
  \<open>str.strip()\<close> removes leading and trailing whitespace, which for \<open>str\<close> is the
  set of code points for which \<open>str.isspace\<close> holds.
\<close>

definition py_isspace :: "nat \<Rightarrow> bool" where
  "py_isspace c =
     ((9 \<le> c \<and> c \<le> 13) \<or> (28 \<le> c \<and> c \<le> 32) \<or> c = 133 \<or> c = 160 \<or> c = 5760
      \<or> (8192 \<le> c \<and> c \<le> 8202) \<or> c = 8232 \<or> c = 8233 \<or> c = 8239 \<or> c = 8287
      \<or> c = 12288)"

definition py_strip :: "pystr \<Rightarrow> pystr" where
  "py_strip s = rev (dropWhile py_isspace (rev (dropWhile py_isspace s)))"

section \<open>The socket layer\<close>

text \<open>
  The scanner talks to the network through \<open>socket\<close>. What the network and the
  operating system answer is an input of the model: for a target, a port and a connect
  timeout, \<open>probe_io\<close> says how each socket call of one probe ends.
  \<^item> \<open>io_socket\<close>: the exception \<open>socket.socket(...)\<close> raises, if any;
  \<^item> \<open>io_connect\<close>: the exception the first \<open>sock.connect\<close> raises, if any (on a
    non-blocking socket usually \<open>BlockingIOError\<close>);
  \<^item> \<open>io_polls\<close>: how the successive \<open>sock.connect_ex\<close> calls of the polling loop end,
    one entry for each iteration that the deadline \<open>time.time() - start < timeout\<close>
    admits (the clock is part of the environment, so the list is finite);
  \<^item> \<open>io_recv\<close>: the bytes waiting when \<open>sock.recv\<close> returns, or the exception it
    raises (a timeout included);
  \<^item> \<open>io_now\<close>: \<open>datetime.now().isoformat()\<close> when the result is built.
\<close>

datatype family = AF_INET | AF_INET6

datatype poll = PollReturns int | PollRaises exn

record probe_io =
  io_socket :: "exn option"
  io_connect :: "exn option"
  io_polls :: "poll list"
  io_recv :: "exn + byte list"
  io_now :: string

text \<open>
  \<open>inet_pton\<close> is \<open>socket.inet_pton\<close>: the packed address, or the exception raised
  (\<open>OSError\<close> for a string that is not a literal of the family).
\<close>

record platform =
  inet_pton :: "family \<Rightarrow> string \<Rightarrow> exn + byte list"
  net :: "string \<Rightarrow> int \<Rightarrow> real \<Rightarrow> probe_io"

text \<open>The socket calls a probe makes, in order, are logged.\<close>

datatype sock_event =
    EvSocket family
  | EvSetTimeout real
  | EvSetBlocking bool
  | EvConnect string int
  | EvConnectEx string int
  | EvRecv nat
  | EvClose

section \<open>The probe\<close>

definition COMMON_PORTS :: "(int \<times> string) list" where
  "COMMON_PORTS =
     [(21, ''FTP''), (22, ''SSH''), (23, ''Telnet''), (25, ''SMTP''), (53, ''DNS''),
      (80, ''HTTP''), (110, ''POP3''), (143, ''IMAP''), (443, ''HTTPS''),
      (445, ''SMB''), (993, ''IMAPS''), (995, ''POP3S''), (1433, ''MSSQL''),
      (1521, ''Oracle''), (3306, ''MySQL''), (3389, ''RDP''), (5432, ''PostgreSQL''),
      (5900, ''VNC''), (6379, ''Redis''), (8080, ''HTTP-Alt''), (8443, ''HTTPS-Alt''),
      (27017, ''MongoDB''), (11211, ''Memcached'')]"

text \<open>\<open>d.get(k, default)\<close> on a dictionary written as an association list.\<close>

definition dict_get :: "('k \<times> 'v) list \<Rightarrow> 'k \<Rightarrow> 'v \<Rightarrow> 'v" where
  "dict_get d k dflt = (case map_of d k of None \<Rightarrow> dflt | Some v \<Rightarrow> v)"

record probe_result =
  r_ip :: string
  r_port :: int
  r_status :: string
  r_service :: string
  r_banner :: pystr
  r_timestamp :: string

text \<open>
  \<^verbatim>\<open>
  def get_banner(sock):
      try:
          sock.settimeout(1)
          return sock.recv(1024).decode('utf-8', errors='ignore').strip()
      except:
          return ""
  \<close>
  The socket is given by the behaviour \<open>io\<close> of its connection; \<open>recv(1024)\<close> returns
  at most 1024 of the waiting bytes.
\<close>

definition get_banner :: "probe_io \<Rightarrow> pystr \<times> sock_event list" where
  "get_banner io =
     (case io_recv io of
        Inl e \<Rightarrow> ([], [EvSetTimeout 1, EvRecv 1024])
      | Inr data \<Rightarrow> (py_strip (utf8_ignore (take 1024 data)), [EvSetTimeout 1, EvRecv 1024]))"

text \<open>
  The polling loop of \<open>scan_port\<close>:
  \<^verbatim>\<open>
  ready = False
  while time.time() - start < timeout:
      try:
          ready = sock.connect_ex((ip, port)) == 0
          if ready:
              break
      except:
          pass
      time.sleep(0.01)
  \<close>
  It returns \<open>ready\<close> and the number of \<open>connect_ex\<close> calls it made.
\<close>

fun poll_loop :: "poll list \<Rightarrow> bool \<times> nat" where
  "poll_loop [] = (False, 0)"
| "poll_loop (PollReturns r # ps) =
     (if r = 0 then (True, 1) else (case poll_loop ps of (ready, n) \<Rightarrow> (ready, Suc n)))"
| "poll_loop (PollRaises e # ps) = (case poll_loop ps of (ready, n) \<Rightarrow> (ready, Suc n))"

text \<open>
  The statements of \<open>scan_port\<close> inside \<open>with socket.socket(...) as sock\<close>, after the
  first \<open>connect\<close> has returned or raised \<open>BlockingIOError\<close>. \<open>Inr (Some r)\<close> is
  \<open>return r\<close>, \<open>Inr None\<close> is leaving the block without a return.
\<close>

definition after_connect ::
  "probe_io \<Rightarrow> string \<Rightarrow> int \<Rightarrow> real \<Rightarrow> (exn + probe_result option) \<times> sock_event list" where
  "after_connect io ip port timeout =
     (case poll_loop (io_polls io) of (ready, n) \<Rightarrow>
        let evs = [EvSetTimeout timeout, EvSetBlocking False, EvConnect ip port]
                    @ replicate n (EvConnectEx ip port)
        in if ready then
             let service = dict_get COMMON_PORTS port ''Unknown'';
                 (banner, bevs) = (if service \<noteq> ''Unknown'' then get_banner io else ([], []))
             in (Inr (Some \<lparr>r_ip = ip, r_port = port, r_status = ''open'',
                             r_service = service, r_banner = banner,
                             r_timestamp = io_now io\<rparr>), evs @ bevs)
           else (Inr None, evs))"

text \<open>
  The body of the \<open>with\<close> block. \<open>sock.settimeout\<close> raises \<open>ValueError\<close> for a
  negative timeout; an exception of \<open>sock.connect\<close> other than \<open>BlockingIOError\<close>
  leaves the block.
\<close>

definition with_sock ::
  "probe_io \<Rightarrow> string \<Rightarrow> int \<Rightarrow> real \<Rightarrow> (exn + probe_result option) \<times> sock_event list" where
  "with_sock io ip port timeout =
     (if timeout < 0 then (Inl ValueError, [EvSetTimeout timeout])
      else case io_connect io of
             None \<Rightarrow> after_connect io ip port timeout
           | Some e \<Rightarrow>
               if e = BlockingIOError then after_connect io ip port timeout
               else (Inl e, [EvSetTimeout timeout, EvSetBlocking False, EvConnect ip port]))"

text \<open>
  The \<open>try\<close> block of \<open>scan_port\<close>: the socket is always \<open>AF_INET\<close>, and the \<open>with\<close>
  statement closes it however the block is left.
\<close>

definition scan_port_try ::
  "platform \<Rightarrow> string \<Rightarrow> int \<Rightarrow> real \<Rightarrow> (exn + probe_result option) \<times> sock_event list" where
  "scan_port_try P ip port timeout =
     (let io = net P ip port timeout in
      case io_socket io of
        Some e \<Rightarrow> (Inl e, [])
      | None \<Rightarrow>
          (case with_sock io ip port timeout of
             (r, evs) \<Rightarrow> (r, EvSocket AF_INET # evs @ [EvClose])))"

text \<open>
  \<^verbatim>\<open>
  def scan_port(ip, port, timeout=0.3):
      try:
          with socket.socket(socket.AF_INET, socket.SOCK_STREAM) as sock:
              ...
      except Exception as e:
          logging.debug(...)
      return None
  \<close>
  Every exception of the model is an \<open>Exception\<close>, so the handler catches it.
\<close>

definition scan_port ::
  "platform \<Rightarrow> string \<Rightarrow> int \<Rightarrow> real \<Rightarrow> probe_result option \<times> sock_event list" where
  "scan_port P ip port timeout =
     (case scan_port_try P ip port timeout of
        (Inr (Some r), evs) \<Rightarrow> (Some r, evs)
      | (Inr None, evs) \<Rightarrow> (None, evs)
      | (Inl e, evs) \<Rightarrow> (None, evs))"

section \<open>Input validation\<close>

text \<open>
  \<^verbatim>\<open>
  def validate_ip(ip):
      try:
          return bool(socket.inet_pton(socket.AF_INET, ip))
      except socket.error:
          try:
              return bool(socket.inet_pton(socket.AF_INET6, ip))
          except socket.error:
              return False
  \<close>
  \<open>socket.error\<close> is \<open>OSError\<close>; any other exception propagates.
\<close>

definition validate_ip :: "platform \<Rightarrow> string \<Rightarrow> exn + bool" where
  "validate_ip P ip =
     (case inet_pton P AF_INET ip of
        Inr packed \<Rightarrow> Inr (packed \<noteq> [])
      | Inl e \<Rightarrow>
          if is_OSError e then
            (case inet_pton P AF_INET6 ip of
               Inr packed \<Rightarrow> Inr (packed \<noteq> [])
             | Inl e' \<Rightarrow> if is_OSError e' then Inr False else Inl e')
          else Inl e)"

text \<open>
  \<open>int(s)\<close> for an ASCII string \<open>s\<close>: surrounding whitespace is skipped, then an
  optional sign, then decimal digits, where single underscores may separate digits.
  Anything else raises \<open>ValueError\<close>. (Command-line arguments are modelled as ASCII
  strings; the interpreter's limit on the number of digits is not modelled.)
\<close>

definition c_isspace :: "char \<Rightarrow> bool" where
  "c_isspace c = (of_char c = (32::nat) \<or> (9 \<le> (of_char c :: nat) \<and> (of_char c :: nat) \<le> 13))"

definition is_digit :: "char \<Rightarrow> bool" where
  "is_digit c = (48 \<le> (of_char c :: nat) \<and> (of_char c :: nat) \<le> 57)"

definition digit_val :: "char \<Rightarrow> nat" where
  "digit_val c = of_char c - 48"

fun int_digits :: "nat \<Rightarrow> string \<Rightarrow> nat option" where
  "int_digits acc [] = Some acc"
| "int_digits acc [c] = (if is_digit c then Some (acc * 10 + digit_val c) else None)"
| "int_digits acc (c # d # cs) =
     (if is_digit c then int_digits (acc * 10 + digit_val c) (d # cs)
      else if c = CHR ''_'' \<and> is_digit d then int_digits (acc * 10 + digit_val d) cs
      else None)"

definition int_body :: "string \<Rightarrow> nat option" where
  "int_body s =
     (case s of
        [] \<Rightarrow> None
      | c # cs \<Rightarrow> if is_digit c then int_digits (digit_val c) cs else None)"

definition c_strip :: "string \<Rightarrow> string" where
  "c_strip s = rev (dropWhile c_isspace (rev (dropWhile c_isspace s)))"

definition py_int :: "string \<Rightarrow> exn + int" where
  "py_int s =
     (case c_strip s of
        [] \<Rightarrow> Inl ValueError
      | c # cs \<Rightarrow>
          if c = CHR ''+'' then
            (case int_body cs of None \<Rightarrow> Inl ValueError | Some n \<Rightarrow> Inr (int n))
          else if c = CHR ''-'' then
            (case int_body cs of None \<Rightarrow> Inl ValueError | Some n \<Rightarrow> Inr (- int n))
          else
            (case int_body (c # cs) of None \<Rightarrow> Inl ValueError | Some n \<Rightarrow> Inr (int n)))"

text \<open>\<open>s.split(sep)\<close> for a one-character separator.\<close>

fun py_split :: "char \<Rightarrow> string \<Rightarrow> string list" where
  "py_split sep [] = [[]]"
| "py_split sep (c # cs) =
     (if c = sep then [] # py_split sep cs
      else (case py_split sep cs of
              [] \<Rightarrow> [[c]]
            | piece # pieces \<Rightarrow> (c # piece) # pieces))"

text \<open>
  The port specification as \<open>main\<close> reads it:
  \<^verbatim>\<open>
  if '-' in args.ports:
      start_port, end_port = map(int, args.ports.split('-'))
  else:
      start_port = end_port = int(args.ports)
  \<close>
  Unpacking anything but two values raises \<open>ValueError\<close>, as \<open>int\<close> does.
\<close>

definition parse_ports :: "string \<Rightarrow> exn + (int \<times> int)" where
  "parse_ports ports =
     (if CHR ''-'' \<in> set ports then
        (case py_split CHR ''-'' ports of
           [a, b] \<Rightarrow>
             (case py_int a of
                Inl e \<Rightarrow> Inl e
              | Inr start_port \<Rightarrow>
                  (case py_int b of
                     Inl e \<Rightarrow> Inl e
                   | Inr end_port \<Rightarrow> Inr (start_port, end_port)))
         | _ \<Rightarrow> Inl ValueError)
      else
        (case py_int ports of
           Inl e \<Rightarrow> Inl e
         | Inr p \<Rightarrow> Inr (p, p)))"

section \<open>Process state and worker threads\<close>

text \<open>
  The module-level state: the list \<open>scan_results\<close> and the lock \<open>results_lock\<close>
  (free, or held by the thread with the given index). The log of socket calls, the
  diagnostics written with \<open>logging.error\<close> and \<open>logging.warning\<close>, and the file
  written by \<open>save_results\<close> are the observable effects.
\<close>

datatype level = LvlError | LvlWarning

record world =
  scan_results :: "probe_result list"
  results_lock :: "nat option"
  net_log :: "sock_event list"
  diag :: "(level \<times> string) list"
  saved :: "(string \<times> probe_result list) option"

text \<open>
  \<^verbatim>\<open>
  def port_scan_worker(ip, ports, timeout, results):
      for port in ports:
          result = scan_port(ip, port, timeout)
          if result:
              with results_lock:
                  results.append(result)
              logging.info(...)
  \<close>
  A running call is its argument \<open>ports\<close>, the position of the \<open>for\<close> loop in it and
  a program point: at the head of the loop; holding a result and waiting to enter
  \<open>with results_lock\<close>; inside the block before \<open>append\<close>; inside the block after it.
  \<open>fast_scan\<close> passes the global \<open>scan_results\<close> as \<open>results\<close>, so \<open>append\<close> extends
  that list. A result is a dictionary with six keys, hence true.
\<close>

datatype pc = AtLoop | AtAcquire probe_result | AtAppend probe_result | AtRelease

record worker =
  w_ports :: "int list"
  w_next :: nat
  w_pc :: pc

definition new_worker :: "int list \<Rightarrow> worker" where
  "new_worker ports = \<lparr>w_ports = ports, w_next = 0, w_pc = AtLoop\<rparr>"

text \<open>A thread can take a step unless its loop is over or it waits for a held lock.\<close>

definition enabled :: "world \<Rightarrow> worker \<Rightarrow> bool" where
  "enabled wd w =
     (case w_pc w of
        AtLoop \<Rightarrow> w_next w < length (w_ports w)
      | AtAcquire r \<Rightarrow> results_lock wd = None
      | AtAppend r \<Rightarrow> True
      | AtRelease \<Rightarrow> True)"

definition worker_step ::
  "platform \<Rightarrow> string \<Rightarrow> real \<Rightarrow> nat \<Rightarrow> worker \<Rightarrow> world \<Rightarrow> worker \<times> world" where
  "worker_step P ip timeout tid w wd =
     (case w_pc w of
        AtLoop \<Rightarrow>
          (case scan_port P ip (w_ports w ! w_next w) timeout of
             (None, evs) \<Rightarrow>
               (w\<lparr>w_next := Suc (w_next w)\<rparr>, wd\<lparr>net_log := net_log wd @ evs\<rparr>)
           | (Some r, evs) \<Rightarrow>
               (w\<lparr>w_next := Suc (w_next w), w_pc := AtAcquire r\<rparr>,
                wd\<lparr>net_log := net_log wd @ evs\<rparr>))
      | AtAcquire r \<Rightarrow> (w\<lparr>w_pc := AtAppend r\<rparr>, wd\<lparr>results_lock := Some tid\<rparr>)
      | AtAppend r \<Rightarrow> (w\<lparr>w_pc := AtRelease\<rparr>, wd\<lparr>scan_results := scan_results wd @ [r]\<rparr>)
      | AtRelease \<Rightarrow> (w\<lparr>w_pc := AtLoop\<rparr>, wd\<lparr>results_lock := None\<rparr>))"

text \<open>
  The threads of the pool, one call of \<open>port_scan_worker\<close> each, interleave: a step
  of the pool is a step of one thread, and a thread that cannot move leaves the state
  as it is.
\<close>

definition pool_step ::
  "platform \<Rightarrow> string \<Rightarrow> real \<Rightarrow> nat \<Rightarrow> worker list \<times> world \<Rightarrow> worker list \<times> world" where
  "pool_step P ip timeout tid st =
     (case st of (ws, wd) \<Rightarrow>
        if tid < length ws \<and> enabled wd (ws ! tid) then
          (case worker_step P ip timeout tid (ws ! tid) wd of
             (w', wd') \<Rightarrow> (ws[tid := w'], wd'))
        else (ws, wd))"

text \<open>The scheduler's choices are an input: the list of threads it runs, in order.\<close>

fun run_schedule ::
  "platform \<Rightarrow> string \<Rightarrow> real \<Rightarrow> nat list \<Rightarrow> worker list \<times> world \<Rightarrow> worker list \<times> world" where
  "run_schedule P ip timeout [] st = st"
| "run_schedule P ip timeout (tid # sched) st =
     run_schedule P ip timeout sched (pool_step P ip timeout tid st)"

text \<open>
  \<open>concurrent.futures.wait(futures)\<close> and leaving the executor's \<open>with\<close> block wait
  for the threads: the pool keeps running, here the first thread that can move,
  until none can.
\<close>

definition weight :: "worker \<Rightarrow> nat" where
  "weight w =
     4 * (length (w_ports w) - w_next w)
       + (case w_pc w of AtLoop \<Rightarrow> 0 | AtAcquire r \<Rightarrow> 3 | AtAppend r \<Rightarrow> 2 | AtRelease \<Rightarrow> 1)"

function drain ::
  "platform \<Rightarrow> string \<Rightarrow> real \<Rightarrow> worker list \<times> world \<Rightarrow> worker list \<times> world" where
  "drain P ip timeout st =
     (case find (\<lambda>tid. enabled (snd st) (fst st ! tid)) [0..<length (fst st)] of
        None \<Rightarrow> st
      | Some tid \<Rightarrow> drain P ip timeout (pool_step P ip timeout tid st))"
  by pat_completeness auto
termination
proof (relation "measure (\<lambda>(P, ip, timeout, st). sum_list (map weight (fst st)))")
  show "wf (measure (\<lambda>(P, ip, timeout, st). sum_list (map weight (fst st))))"
    by simp
next
  fix P :: platform and ip :: string and timeout :: real
    and st :: "worker list \<times> world" and tid :: nat
  assume f: "find (\<lambda>tid. enabled (snd st) (fst st ! tid)) [0..<length (fst st)] = Some tid"
  obtain ws wd where st: "st = (ws, wd)"
    by (cases st)
  from f st have tid: "tid < length ws" and en: "enabled wd (ws ! tid)"
    by (auto simp: find_Some_iff)
  obtain w' wd' where step: "worker_step P ip timeout tid (ws ! tid) wd = (w', wd')"
    by (cases "worker_step P ip timeout tid (ws ! tid) wd")
  have less: "weight w' < weight (ws ! tid)"
    using step en
    by (auto simp: worker_step_def weight_def enabled_def split: pc.splits option.splits prod.splits)
  have "map weight ws ! tid \<in> set (map weight ws)"
    using tid by (intro nth_mem) simp
  then have "weight (ws ! tid) \<le> sum_list (map weight ws)"
    using tid member_le_sum_list[of "map weight ws ! tid" "map weight ws"] by simp
  moreover have "sum_list (map weight (ws[tid := w']))
          = sum_list (map weight ws) + weight w' - weight (ws ! tid)"
    using tid by (simp add: sum_list_update map_update)
  ultimately have "sum_list (map weight (ws[tid := w'])) < sum_list (map weight ws)"
    using less by simp
  then show "((P, ip, timeout, pool_step P ip timeout tid st), P, ip, timeout, st)
               \<in> measure (\<lambda>(P, ip, timeout, st). sum_list (map weight (fst st)))"
    using st tid en step by (simp add: pool_step_def)
qed

declare drain.simps [simp del]

section \<open>The scan and the command line\<close>

text \<open>
  \<^verbatim>\<open>
  def fast_scan(ip, start_port, end_port, max_threads=200, timeout=0.3):
      port_batches = batch_ports(start_port, end_port, max_threads // 2)
      with concurrent.futures.ThreadPoolExecutor(max_workers=max_threads) as executor:
          futures = []
          for batch in port_batches:
              futures.append(
                  executor.submit(port_scan_worker, ip, batch, timeout, scan_results))
          concurrent.futures.wait(futures)
  \<close>
  \<open>ThreadPoolExecutor\<close> raises \<open>ValueError\<close> unless \<open>max_workers\<close> is positive. The
  executor runs at most \<open>max_threads\<close> of the submitted calls at a time; the model
  admits every interleaving of all of them, which includes those of the executor.
\<close>

definition fast_scan ::
  "platform \<Rightarrow> nat list \<Rightarrow> string \<Rightarrow> int \<Rightarrow> int \<Rightarrow> int \<Rightarrow> real \<Rightarrow> world \<Rightarrow> exn + world" where
  "fast_scan P sched ip start_port end_port max_threads timeout wd =
     (case batch_ports start_port end_port (max_threads div 2) of
        Inl e \<Rightarrow> Inl e
      | Inr port_batches \<Rightarrow>
          if max_threads \<le> 0 then Inl ValueError
          else Inr (snd (drain P ip timeout
                          (run_schedule P ip timeout sched (map new_worker port_batches, wd)))))"

text \<open>The parsed command line (\<open>parse_arguments\<close>).\<close>

record args =
  a_ip :: string
  a_ports :: string
  a_threads :: int
  a_timeout :: real
  a_output :: string
  a_banner :: bool

definition log_error :: "string \<Rightarrow> world \<Rightarrow> world" where
  "log_error msg wd = wd\<lparr>diag := diag wd @ [(LvlError, msg)]\<rparr>"

definition log_warning :: "string \<Rightarrow> world \<Rightarrow> world" where
  "log_warning msg wd = wd\<lparr>diag := diag wd @ [(LvlWarning, msg)]\<rparr>"

definition save_results :: "string \<Rightarrow> probe_result list \<Rightarrow> world \<Rightarrow> world" where
  "save_results filename results wd = wd\<lparr>saved := Some (filename, results)\<rparr>"

text \<open>
  \<^verbatim>\<open>
  def main():
      args = parse_arguments()
      if not validate_ip(args.ip):
          logging.error("Invalid IP address")
          return
      try:
          ... (the port specification, see parse_ports)
      except ValueError:
          logging.error("Invalid port range")
          return
      if start_port < 1 or end_port > 65535 or start_port > end_port:
          logging.error("Invalid port range (1-65535)")
          return
      args.threads = min(max(args.threads, 1), 500)
      args.timeout = max(min(args.timeout, 5.0), 0.1)
      ...
      fast_scan(args.ip, start_port, end_port, args.threads, args.timeout)
      ...
      if scan_results:
          save_results(args.output, scan_results)
          ...
      else:
          logging.warning(Fore.YELLOW + "No open ports found")
  \<close>
  The informational log lines are left out; the colour prefix of the warning is not
  part of the modelled message.
\<close>

definition main :: "platform \<Rightarrow> nat list \<Rightarrow> args \<Rightarrow> world \<Rightarrow> exn + world" where
  "main P sched args wd =
     (case validate_ip P (a_ip args) of
        Inl e \<Rightarrow> Inl e
      | Inr valid \<Rightarrow>
          if \<not> valid then Inr (log_error ''Invalid IP address'' wd)
          else
            (case parse_ports (a_ports args) of
               Inl e \<Rightarrow>
                 if e = ValueError then Inr (log_error ''Invalid port range'' wd) else Inl e
             | Inr (start_port, end_port) \<Rightarrow>
                 if start_port < 1 \<or> end_port > 65535 \<or> start_port > end_port then
                   Inr (log_error ''Invalid port range (1-65535)'' wd)
                 else
                   let threads = min (max (a_threads args) 1) 500;
                       timeout = max (min (a_timeout args) 5) (1 / 10)
                   in (case fast_scan P sched (a_ip args) start_port end_port threads timeout wd of
                         Inl e \<Rightarrow> Inl e
                       | Inr wd' \<Rightarrow>
                           if scan_results wd' \<noteq> [] then
                             Inr (save_results (a_output args) (scan_results wd') wd')
                           else Inr (log_warning ''No open ports found'' wd'))))"

section \<open>A sample environment\<close>

text \<open>
  A host that listens on ports 21, 22 and 8000 and refuses every other port, used to
  run the definitions on concrete inputs. Port 21 greets with \<open>READY\<close> and a newline;
  port 22 sends nothing, so that the read times out. The host is reached under its
  IPv4 address and under the IPv4-mapped IPv6 literal, which the resolver converts for
  an \<open>AF_INET\<close> socket; for the IPv6 literal \<open>::1\<close> the socket layer raises
  \<open>socket.gaierror\<close>. A connection in progress answers \<open>connect_ex\<close> with 114
  (\<open>EALREADY\<close>), a refused one with 111 (\<open>ECONNREFUSED\<close>).
\<close>

definition demo_io :: "string \<Rightarrow> int \<Rightarrow> real \<Rightarrow> probe_io" where
  "demo_io ip port timeout =
     (if ip = ''::1'' then
        \<lparr>io_socket = None, io_connect = Some GaiError,
         io_polls = (if 0 < timeout then [PollRaises GaiError] else []),
         io_recv = Inl OtherOSError, io_now = ''2024-01-01T00:00:00''\<rparr>
      else if port = 21 \<or> port = 22 \<or> port = 8000 then
        \<lparr>io_socket = None, io_connect = Some BlockingIOError,
         io_polls = (if 0 < timeout then [PollReturns 114, PollReturns 0] else []),
         io_recv = (if port = 21 then Inr [82, 69, 65, 68, 89, 10] else Inl TimeoutError),
         io_now = ''2024-01-01T00:00:00''\<rparr>
      else
        \<lparr>io_socket = None, io_connect = Some BlockingIOError,
         io_polls = (if 0 < timeout then [PollReturns 111, PollReturns 111] else []),
         io_recv = Inl ConnectionError, io_now = ''2024-01-01T00:00:00''\<rparr>)"

definition demo_pton :: "family \<Rightarrow> string \<Rightarrow> exn + byte list" where
  "demo_pton fam s =
     (if fam = AF_INET \<and> s = ''127.0.0.1'' then Inr [127, 0, 0, 1]
      else if fam = AF_INET6 \<and> s = ''::1'' then Inr (replicate 15 0 @ [1])
      else if fam = AF_INET6 \<and> s = ''::ffff:127.0.0.1'' then
        Inr (replicate 10 0 @ [255, 255, 127, 0, 0, 1])
      else Inl OtherOSError)"

definition demo_platform :: platform where
  "demo_platform = \<lparr>inet_pton = demo_pton, net = demo_io\<rparr>"

text \<open>The state of a freshly started process.\<close>

definition initial_world :: world where
  "initial_world =
     \<lparr>scan_results = [], results_lock = None, net_log = [], diag = [], saved = None\<rparr>"

section \<open>Notions used to state the properties of the scan\<close>

text \<open>
  The records and the socket calls that probing a list of ports one after the other
  produces.
\<close>

definition open_records :: "platform \<Rightarrow> string \<Rightarrow> real \<Rightarrow> int list \<Rightarrow> probe_result list" where
  "open_records P ip timeout ports =
     List.map_filter (\<lambda>port. fst (scan_port P ip port timeout)) ports"

definition probe_events :: "platform \<Rightarrow> string \<Rightarrow> real \<Rightarrow> int list \<Rightarrow> sock_event list" where
  "probe_events P ip timeout ports =
     concat (map (\<lambda>port. snd (scan_port P ip port timeout)) ports)"

text \<open>
  A thread is in its critical section between acquiring and releasing
  \<open>results_lock\<close>; it has finished when its loop has run through all its ports.
\<close>

definition in_critical :: "worker \<Rightarrow> bool" where
  "in_critical w =
     (case w_pc w of AtLoop \<Rightarrow> False | AtAcquire r \<Rightarrow> False | AtAppend r \<Rightarrow> True
      | AtRelease \<Rightarrow> True)"

definition finished :: "worker \<Rightarrow> bool" where
  "finished w = (w_pc w = AtLoop \<and> w_next w = length (w_ports w))"

text \<open>The ports a thread has probed so far, and the result it holds but has not appended.\<close>

definition probed :: "worker \<Rightarrow> int list" where
  "probed w = take (w_next w) (w_ports w)"

definition held :: "worker \<Rightarrow> probe_result multiset" where
  "held w =
     (case w_pc w of AtLoop \<Rightarrow> {#} | AtAcquire r \<Rightarrow> {#r#} | AtAppend r \<Rightarrow> {#r#}
      | AtRelease \<Rightarrow> {#})"

text \<open>
  The invariant of a running pool, relative to the state \<open>wd0\<close> in which it was
  started with the given batches: the lock is held exactly by the thread in its
  critical section; the collection is its initial content followed by the records
  appended since, and these, with the records still held, are those of the ports
  probed so far; likewise for the log of socket calls.
\<close>

definition pool_inv ::
  "platform \<Rightarrow> string \<Rightarrow> real \<Rightarrow> int list list \<Rightarrow> world \<Rightarrow> worker list \<times> world \<Rightarrow> bool" where
  "pool_inv P ip timeout batches wd0 st =
     (case st of (ws, wd) \<Rightarrow>
        map w_ports ws = batches
      \<and> (\<forall>tid<length ws. w_next (ws ! tid) \<le> length (w_ports (ws ! tid)))
      \<and> (\<forall>tid<length ws. in_critical (ws ! tid) = (results_lock wd = Some tid))
      \<and> (\<forall>tid. results_lock wd = Some tid \<longrightarrow> tid < length ws)
      \<and> (\<exists>new. scan_results wd = scan_results wd0 @ new
             \<and> mset new + sum_list (map held ws)
                 = sum_list (map (\<lambda>w. mset (open_records P ip timeout (probed w))) ws))
      \<and> mset (net_log wd)
           = mset (net_log wd0)
               + sum_list (map (\<lambda>w. mset (probe_events P ip timeout (probed w))) ws)
      \<and> diag wd = diag wd0 \<and> saved wd = saved wd0)"

text \<open>
  Two calls of \<open>fast_scan\<close> with the same arguments in one process, the collection
  being read after each.
\<close>

definition scan_twice ::
  "platform \<Rightarrow> nat list \<Rightarrow> nat list \<Rightarrow> string \<Rightarrow> int \<Rightarrow> int \<Rightarrow> int \<Rightarrow> real \<Rightarrow> world
     \<Rightarrow> exn + probe_result list \<times> probe_result list" where
  "scan_twice P sched1 sched2 ip start_port end_port max_threads timeout wd =
     (case fast_scan P sched1 ip start_port end_port max_threads timeout wd of
        Inl e \<Rightarrow> Inl e
      | Inr wd1 \<Rightarrow>
          (case fast_scan P sched2 ip start_port end_port max_threads timeout wd1 of
             Inl e \<Rightarrow> Inl e
           | Inr wd2 \<Rightarrow> Inr (scan_results wd1, scan_results wd2)))"

section \<open>Properties of the batcher\<close>

lemma range_pos_one: "py_range_pos i (j + 1) 1 = [i..j]"
proof (induction i "j + 1" "1::int" rule: py_range_pos.induct)
  case (1 i)
  show ?case using 1 by (subst py_range_pos.simps) (auto simp: upto_rec1 upto.simps)
qed

lemma slice_chunk:
  assumes "0 \<le> i" "0 < b"
  shows "py_slice xs i (i + b) = take (nat b) (drop (nat i) xs)"
proof (cases "nat i \<le> length xs")
  case True
  have "nat (i + b) = nat i + nat b"
    using assms by (simp add: nat_add_distrib)
  then have "min (nat (i + b)) (length xs) - nat i = min (nat b) (length xs - nat i)"
    using True by arith
  moreover have "take (min (nat b) (length xs - nat i)) (drop (nat i) xs) = take (nat b) (drop (nat i) xs)"
    by (simp add: min_def)
  ultimately show ?thesis
    using assms True by (simp add: py_slice_def slice_index_def min_absorb1 Let_def)
next
  case False
  then show ?thesis using assms by (simp add: py_slice_def slice_index_def)
qed

lemma concat_chunks:
  "0 \<le> i \<Longrightarrow> 0 < b \<Longrightarrow>
     concat (map (\<lambda>i. py_slice xs i (i + b)) (py_range_pos i (int (length xs)) b)) = drop (nat i) xs"
proof (induction i "int (length xs)" b rule: py_range_pos.induct)
  case (1 i b)
  show ?case
  proof (cases "i < int (length xs)")
    case True
    then have ih: "concat (map (\<lambda>i. py_slice xs i (i + b)) (py_range_pos (i + b) (int (length xs)) b))
        = drop (nat (i + b)) xs"
      using 1 by simp
    have dd: "drop (nat (i + b)) xs = drop (nat b) (drop (nat i) xs)"
      using 1(2,3) by (simp add: nat_add_distrib add.commute)
    have "py_range_pos i (int (length xs)) b = i # py_range_pos (i + b) (int (length xs)) b"
      using True 1(3) by (subst py_range_pos.simps) simp
    then show ?thesis
      using 1(2,3) by (simp add: slice_chunk ih dd del: drop_drop)
  next
    case False
    then have "py_range_pos i (int (length xs)) b = []"
      by (subst py_range_pos.simps) simp
    then show ?thesis using 1(2) False by auto
  qed
qed

lemma range_pos_length:
  "0 < s \<Longrightarrow> (k < length (py_range_pos i n s)) = (i + int k * s < n)"
proof (induction i n s arbitrary: k rule: py_range_pos.induct)
  case (1 i n s)
  show ?case
  proof (cases "i < n")
    case True
    show ?thesis
    proof (cases k)
      case 0
      then show ?thesis using True 1(2) by (subst py_range_pos.simps) simp
    next
      case (Suc k')
      have "(k' < length (py_range_pos (i + s) n s)) = (i + s + int k' * s < n)"
        using 1(1)[of k'] True 1(2) by simp
      then show ?thesis using True 1(2) Suc
        by (subst py_range_pos.simps) (simp add: algebra_simps)
    qed
  next
    case False
    have "0 \<le> int k * s" using 1(2) by simp
    then show ?thesis using False by (subst py_range_pos.simps) simp
  qed
qed

lemma range_pos_nth:
  "k < length (py_range_pos i n s) \<Longrightarrow> py_range_pos i n s ! k = i + int k * s"
proof (induction i n s arbitrary: k rule: py_range_pos.induct)
  case (1 i n s)
  from 1(2) have c: "0 < s \<and> i < n"
    by (subst (asm) py_range_pos.simps) (auto split: if_splits)
  show ?case
  proof (cases k)
    case 0
    then show ?thesis using c by (subst py_range_pos.simps) simp
  next
    case (Suc k')
    have "k' < length (py_range_pos (i + s) n s)"
      using 1(2) c Suc by (subst (asm) py_range_pos.simps) simp
    then have "py_range_pos (i + s) n s ! k' = i + s + int k' * s"
      using 1(1) c by simp
    then show ?thesis using c Suc
      by (subst py_range_pos.simps) (simp add: algebra_simps)
  qed
qed

lemma take_drop_upto:
  assumes "0 \<le> j" "0 < b"
  shows "take (nat b) (drop (nat j) [a..e]) = [a + j .. min e (a + j + b - 1)]"
proof (rule nth_equalityI)
  show "length (take (nat b) (drop (nat j) [a..e])) = length [a + j .. min e (a + j + b - 1)]"
    using assms by (auto simp: min_def)
next
  fix k assume "k < length (take (nat b) (drop (nat j) [a..e]))"
  then have k: "int k < b" "int k + j < e - a + 1"
    using assms by auto
  then show "take (nat b) (drop (nat j) [a..e]) ! k = [a + j .. min e (a + j + b - 1)] ! k"
    using assms by (simp add: nat_add_distrib)
qed

text \<open>
  Claim C1. For a port range with \<open>start \<le> end\<close> (in particular every valid range
  \<open>1 \<le> start \<le> end \<le> 65535\<close>) and a batch size of at least 1, \<open>batch_ports\<close>
  returns a non-empty list of batches whose concatenation is exactly
  \<open>start, start + 1, \<dots>, end\<close> (so every port occurs once, in order); batch \<open>k\<close>
  is the contiguous run starting at \<open>start + k * batch_size\<close>; no batch is empty or
  longer than \<open>batch_size\<close>, and every batch but the last has exactly
  \<open>batch_size\<close> ports.
\<close>

theorem batch_ports_partition:
  assumes "start \<le> end" and "1 \<le> batch_size"
  shows "\<exists>bl. batch_ports start end batch_size = Inr bl
            \<and> concat bl = [start..end]
            \<and> distinct (concat bl)
            \<and> bl \<noteq> []
            \<and> (\<forall>k<length bl. bl ! k =
                  [start + int k * batch_size .. min end (start + int k * batch_size + batch_size - 1)])
            \<and> (\<forall>k<length bl. bl ! k \<noteq> [] \<and> length (bl ! k) \<le> nat batch_size
                  \<and> (Suc k < length bl \<longrightarrow> length (bl ! k) = nat batch_size))"
proof -
  define ports where "ports = [start..end]"
  define n where "n = int (length ports)"
  define starts where "starts = py_range_pos 0 n batch_size"
  define bl where "bl = map (\<lambda>i. py_slice ports i (i + batch_size)) starts"
  have b: "0 < batch_size" using assms by simp
  have n: "n = end - start + 1" using assms by (simp add: n_def ports_def)
  have res: "batch_ports start end batch_size = Inr bl"
    using b by (simp add: batch_ports_def py_range_def range_pos_one bl_def starts_def n_def ports_def)
  have cc: "concat bl = [start..end]"
    using concat_chunks[of 0 batch_size ports] b by (simp add: bl_def starts_def n_def ports_def)
  have len: "\<And>k. (k < length bl) = (int k * batch_size < n)"
    using range_pos_length[OF b, of _ 0 n] by (simp add: bl_def starts_def)
  have nth: "bl ! k = [start + int k * batch_size .. min end (start + int k * batch_size + batch_size - 1)]"
    if "k < length bl" for k
  proof -
    have "starts ! k = int k * batch_size"
      using that range_pos_nth[of k 0 n batch_size] by (simp add: bl_def starts_def)
    moreover have "0 \<le> int k * batch_size" using b by simp
    ultimately show ?thesis
      using that b by (simp add: bl_def slice_chunk take_drop_upto ports_def)
  qed
  have ne: "bl \<noteq> []" using len[of 0] n assms by auto
  have shape: "bl ! k \<noteq> [] \<and> length (bl ! k) \<le> nat batch_size
                  \<and> (Suc k < length bl \<longrightarrow> length (bl ! k) = nat batch_size)"
    if "k < length bl" for k
  proof -
    have k: "int k * batch_size < n" using that len by simp
    have "Suc k < length bl \<Longrightarrow> int k * batch_size + batch_size < n"
      using len[of "Suc k"] by (simp add: algebra_simps)
    then show ?thesis using nth[OF that] k n b by (auto simp: min_def)
  qed
  show ?thesis
    using res cc ne nth shape by (intro exI[of _ bl]) simp
qed

theorem batch_ports_partition_witness:
  "(1::int) \<le> 10 \<and> (1::int) \<le> 3
   \<and> batch_ports 1 10 3 = Inr [[1, 2, 3], [4, 5, 6], [7, 8, 9], [10]]
   \<and> (\<exists>bl. batch_ports 1 10 3 = Inr bl \<and> concat bl = [1..10] \<and> distinct (concat bl)
          \<and> (\<forall>k<length bl. bl ! k \<noteq> [] \<and> length (bl ! k) \<le> nat 3
                \<and> (Suc k < length bl \<longrightarrow> length (bl ! k) = nat 3)))"
proof -
  have h1: "(1::int) \<le> 10" and h2: "(1::int) \<le> 3" by simp_all
  have ev: "batch_ports 1 10 3 = Inr [[1, 2, 3], [4, 5, 6], [7, 8, 9], [10]]"
    by code_simp
  from batch_ports_partition[OF h1 h2] h1 h2 ev show ?thesis by blast
qed

section \<open>Properties of the probe\<close>

lemma poll_loop_events: "poll_loop ps = (ready, n) \<Longrightarrow> n \<le> length ps"
  by (induction ps arbitrary: ready n rule: poll_loop.induct) (auto split: if_splits prod.splits)

lemma common_ports_table: "length COMMON_PORTS = 23 \<and> distinct (map fst COMMON_PORTS)"
  by (simp add: COMMON_PORTS_def)

lemma common_ports_known: "map_of COMMON_PORTS port = Some s \<Longrightarrow> s \<noteq> ''Unknown''"
  by (auto simp: COMMON_PORTS_def split: if_splits)

lemma service_unknown_iff:
  "(dict_get COMMON_PORTS port ''Unknown'' = ''Unknown'') = (port \<notin> fst ` set COMMON_PORTS)"
proof (cases "map_of COMMON_PORTS port")
  case None
  moreover from None have "port \<notin> fst ` set COMMON_PORTS"
    by (simp add: map_of_eq_None_iff)
  ultimately show ?thesis by (simp add: dict_get_def)
next
  case (Some s)
  then have "port \<in> fst ` set COMMON_PORTS"
    by (metis map_of_eq_None_iff option.distinct(1))
  then show ?thesis using Some common_ports_known[OF Some] by (simp add: dict_get_def)
qed

lemma get_banner_events: "snd (get_banner io) = [EvSetTimeout 1, EvRecv 1024]"
  by (simp add: get_banner_def split: sum.splits)

lemma after_connect_Some:
  assumes "after_connect io ip port timeout = (Inr (Some r), evs)"
  shows "r_service r = dict_get COMMON_PORTS port ''Unknown''
       \<and> (EvRecv 1024 \<in> set evs \<longleftrightarrow> r_service r \<noteq> ''Unknown'')
       \<and> (r_service r \<noteq> ''Unknown'' \<longrightarrow> r_banner r = fst (get_banner io))
       \<and> (r_service r = ''Unknown'' \<longrightarrow> r_banner r = [])
       \<and> r_ip r = ip \<and> r_port r = port \<and> r_status r = ''open''"
proof -
  obtain ready n where pl: "poll_loop (io_polls io) = (ready, n)"
    by (cases "poll_loop (io_polls io)")
  obtain b bevs where gb: "get_banner io = (b, bevs)"
    by (cases "get_banner io")
  have bevs: "bevs = [EvSetTimeout 1, EvRecv 1024]"
    using get_banner_events[of io] gb by simp
  show ?thesis
    using assms pl gb bevs
    by (auto simp: after_connect_def Let_def split: if_splits)
qed


text \<open>
  Claim C3. When \<open>scan_port\<close> reports a port open, the service of the result is the
  entry of the 23-entry table \<open>COMMON_PORTS\<close> for the port, or \<open>Unknown\<close> when the
  port has no entry; the probe reads from the socket (the \<open>recv(1024)\<close> of
  \<open>get_banner\<close>) exactly when the service is not \<open>Unknown\<close>, the banner is then
  what \<open>get_banner\<close> returns, and it is the empty string otherwise.
\<close>

theorem scan_port_service_and_banner:
  assumes "scan_port P ip port timeout = (Some r, evs)"
  shows "r_service r = (case map_of COMMON_PORTS port of None \<Rightarrow> ''Unknown'' | Some s \<Rightarrow> s)
       \<and> length COMMON_PORTS = 23 \<and> distinct (map fst COMMON_PORTS)
       \<and> (r_service r = ''Unknown'' \<longleftrightarrow> port \<notin> fst ` set COMMON_PORTS)
       \<and> (EvRecv 1024 \<in> set evs \<longleftrightarrow> r_service r \<noteq> ''Unknown'')
       \<and> (r_service r \<noteq> ''Unknown'' \<longrightarrow> r_banner r = fst (get_banner (net P ip port timeout)))
       \<and> (r_service r = ''Unknown'' \<longrightarrow> r_banner r = [])"
proof -
  define io where "io = net P ip port timeout"
  from assms obtain evs' where tr: "scan_port_try P ip port timeout = (Inr (Some r), evs')"
    and e1: "evs = evs'"
    by (auto simp: scan_port_def split: prod.splits sum.splits option.splits)
  from tr obtain evs2 where ws: "with_sock io ip port timeout = (Inr (Some r), evs2)"
    and e2: "evs' = EvSocket AF_INET # evs2 @ [EvClose]"
    by (auto simp: scan_port_try_def io_def Let_def split: option.splits prod.splits)
  from ws have ac: "after_connect io ip port timeout = (Inr (Some r), evs2)"
    by (auto simp: with_sock_def split: if_splits option.splits)
  note k = after_connect_Some[OF ac]
  have "EvRecv 1024 \<in> set evs \<longleftrightarrow> EvRecv 1024 \<in> set evs2"
    using e1 e2 by auto
  then show ?thesis
    using k service_unknown_iff[of port] common_ports_table
    by (simp add: dict_get_def io_def)
qed

theorem scan_port_service_and_banner_witness:
  "scan_port demo_platform ''127.0.0.1'' 21 (3 / 10) =
     (Some \<lparr>r_ip = ''127.0.0.1'', r_port = 21, r_status = ''open'', r_service = ''FTP'',
            r_banner = [82, 69, 65, 68, 89], r_timestamp = ''2024-01-01T00:00:00''\<rparr>,
      [EvSocket AF_INET, EvSetTimeout (3 / 10), EvSetBlocking False,
       EvConnect ''127.0.0.1'' 21, EvConnectEx ''127.0.0.1'' 21, EvConnectEx ''127.0.0.1'' 21,
       EvSetTimeout 1, EvRecv 1024, EvClose])
   \<and> map_of COMMON_PORTS 21 = Some ''FTP''
   \<and> fst (get_banner (net demo_platform ''127.0.0.1'' 21 (3 / 10))) = [82, 69, 65, 68, 89]"
proof -
  have run: "scan_port demo_platform ''127.0.0.1'' 21 (3 / 10) =
     (Some \<lparr>r_ip = ''127.0.0.1'', r_port = 21, r_status = ''open'', r_service = ''FTP'',
            r_banner = [82, 69, 65, 68, 89], r_timestamp = ''2024-01-01T00:00:00''\<rparr>,
      [EvSocket AF_INET, EvSetTimeout (3 / 10), EvSetBlocking False,
       EvConnect ''127.0.0.1'' 21, EvConnectEx ''127.0.0.1'' 21, EvConnectEx ''127.0.0.1'' 21,
       EvSetTimeout 1, EvRecv 1024, EvClose])"
    by (simp add: scan_port_def scan_port_try_def with_sock_def after_connect_def
        demo_platform_def demo_io_def get_banner_def dict_get_def COMMON_PORTS_def
        py_strip_def py_isspace_def utf8_first_def Let_def)
  from scan_port_service_and_banner[OF run] show ?thesis
    using run by (simp add: COMMON_PORTS_def)
qed

section \<open>Properties of the banner reader\<close>









section \<open>Properties of the command line\<close>





text \<open>
  Claim C2 fails for a concurrency of 1. The batch size is \<open>max_threads // 2\<close>, which
  is 0 for one thread; \<open>range\<close> then raises \<open>ValueError\<close> in \<open>batch_ports\<close>, before any
  thread is started, and \<open>main\<close>, which clamps the thread count to at least 1 and so
  accepts this value, lets the exception escape.
\<close>

theorem fast_scan_single_thread_fails:
  "fast_scan P sched ip start_port end_port 1 timeout wd = Inl ValueError
   \<and> main demo_platform [] \<lparr>a_ip = ''127.0.0.1'', a_ports = ''21-22'', a_threads = 1,
         a_timeout = 3 / 10, a_output = ''scan_results.json'', a_banner = False\<rparr> initial_world
       = Inl ValueError"
proof -
  have f: "\<And>P sched ip s e t w. fast_scan P sched ip s e 1 t w = Inl ValueError"
    by (simp add: fast_scan_def batch_ports_def py_range_def)
  have v: "validate_ip demo_platform ''127.0.0.1'' = Inr True"
    by (simp add: validate_ip_def demo_platform_def demo_pton_def)
  have p: "parse_ports ''21-22'' = Inr (21, 22)"
    by (simp add: parse_ports_def py_int_def c_strip_def c_isspace_def int_body_def is_digit_def
        digit_val_def)
  show ?thesis
    using f v p by (simp add: main_def)
qed

section \<open>Properties of the worker pool\<close>

lemma sum_list_map_update:
  fixes f :: "'a \<Rightarrow> 'b::comm_monoid_add"
  shows "tid < length ws \<Longrightarrow>
    sum_list (map f (ws[tid := w'])) + f (ws ! tid) = sum_list (map f ws) + f w'"
proof (induction ws arbitrary: tid)
  case Nil
  then show ?case by simp
next
  case (Cons a ws)
  show ?case
  proof (cases tid)
    case 0
    then show ?thesis by (simp add: ac_simps)
  next
    case (Suc k)
    with Cons.prems have "k < length ws" by simp
    from Cons.IH[OF this] show ?thesis using Suc by (simp add: ac_simps)
  qed
qed

lemma sum_list_map_update_same:
  fixes f :: "'a \<Rightarrow> 'b::cancel_comm_monoid_add"
  assumes "tid < length ws" and "f w' = f (ws ! tid)"
  shows "sum_list (map f (ws[tid := w'])) = sum_list (map f ws)"
  using sum_list_map_update[OF assms(1), of f w'] assms(2) by simp

lemma sum_list_map_update_add:
  fixes f :: "'a \<Rightarrow> 'b::cancel_comm_monoid_add"
  assumes "tid < length ws" and "f w' = f (ws ! tid) + d"
  shows "sum_list (map f (ws[tid := w'])) = sum_list (map f ws) + d"
proof -
  have "sum_list (map f (ws[tid := w'])) + f (ws ! tid) = (sum_list (map f ws) + d) + f (ws ! tid)"
    using sum_list_map_update[OF assms(1), of f w'] assms(2) by (simp add: ac_simps)
  then show ?thesis by simp
qed

lemma sum_list_map_update_sub:
  fixes f :: "'a \<Rightarrow> 'b::cancel_comm_monoid_add"
  assumes "tid < length ws" and "f (ws ! tid) = f w' + d"
  shows "sum_list (map f (ws[tid := w'])) + d = sum_list (map f ws)"
proof -
  have "(sum_list (map f (ws[tid := w'])) + d) + f w' = sum_list (map f ws) + f w'"
    using sum_list_map_update[OF assms(1), of f w'] assms(2) by (simp add: ac_simps)
  then show ?thesis by simp
qed

lemma open_records_snoc:
  "open_records P ip timeout (ports @ [port]) =
     open_records P ip timeout ports
       @ (case fst (scan_port P ip port timeout) of None \<Rightarrow> [] | Some r \<Rightarrow> [r])"
  by (simp add: open_records_def List.map_filter_def split: option.splits)

lemma probe_events_snoc:
  "probe_events P ip timeout (ports @ [port]) =
     probe_events P ip timeout ports @ snd (scan_port P ip port timeout)"
  by (simp add: probe_events_def)

lemma open_records_concat:
  "mset (open_records P ip timeout (concat batches)) =
     sum_list (map (\<lambda>ports. mset (open_records P ip timeout ports)) batches)"
  by (induction batches) (simp_all add: open_records_def List.map_filter_def)

lemma probe_events_concat:
  "mset (probe_events P ip timeout (concat batches)) =
     sum_list (map (\<lambda>ports. mset (probe_events P ip timeout ports)) batches)"
  by (induction batches) (simp_all add: probe_events_def)

lemma worker_step_inv:
  assumes inv: "pool_inv P ip timeout batches wd0 (ws, wd)"
    and tid: "tid < length ws"
    and en: "enabled wd (ws ! tid)"
    and step: "worker_step P ip timeout tid (ws ! tid) wd = (w', wd')"
  shows "pool_inv P ip timeout batches wd0 (ws[tid := w'], wd')"
proof -
  define w where "w = ws ! tid"
  define recs where "recs = (\<lambda>w. mset (open_records P ip timeout (probed w)))"
  define evts where "evts = (\<lambda>w. mset (probe_events P ip timeout (probed w)))"
  from inv have I1: "map w_ports ws = batches"
    and I2: "\<forall>k<length ws. w_next (ws ! k) \<le> length (w_ports (ws ! k))"
    and I3: "\<forall>k<length ws. in_critical (ws ! k) = (results_lock wd = Some k)"
    and I4: "\<forall>k. results_lock wd = Some k \<longrightarrow> k < length ws"
    and I6: "mset (net_log wd) = mset (net_log wd0) + sum_list (map evts ws)"
    and I7: "diag wd = diag wd0" "saved wd = saved wd0"
    by (simp_all add: pool_inv_def evts_def)
  from inv obtain new where N: "scan_results wd = scan_results wd0 @ new"
    and M: "mset new + sum_list (map held ws) = sum_list (map recs ws)"
    by (auto simp: pool_inv_def recs_def)
  have goal: "pool_inv P ip timeout batches wd0 (ws[tid := w'], wd')"
    if "w_ports w' = w_ports w" and "w_next w' \<le> length (w_ports w')"
      and "\<forall>k<length ws. in_critical (ws[tid := w'] ! k) = (results_lock wd' = Some k)"
      and "\<forall>k. results_lock wd' = Some k \<longrightarrow> k < length ws"
      and "\<exists>new'. scan_results wd' = scan_results wd0 @ new'
              \<and> mset new' + sum_list (map held (ws[tid := w'])) = sum_list (map recs (ws[tid := w']))"
      and "mset (net_log wd') = mset (net_log wd0) + sum_list (map evts (ws[tid := w']))"
      and "diag wd' = diag wd" "saved wd' = saved wd"
  proof -
    have "(map w_ports ws)[tid := w_ports (ws ! tid)] = map w_ports ws"
      using tid by (simp add: list_update_same_conv)
    then have "map w_ports (ws[tid := w']) = batches"
      using that(1) I1 by (simp add: map_update w_def)
    moreover have "\<forall>k<length (ws[tid := w']). w_next (ws[tid := w'] ! k)
                      \<le> length (w_ports (ws[tid := w'] ! k))"
      using that(2) I2 tid by (auto simp: nth_list_update)
    ultimately show ?thesis
      using that(3-8) I7 unfolding pool_inv_def recs_def evts_def by simp
  qed
  consider (loop) "w_pc w = AtLoop" | (acq) r where "w_pc w = AtAcquire r"
    | (app) r where "w_pc w = AtAppend r" | (rel) "w_pc w = AtRelease"
    by (cases "w_pc w") auto
  then show ?thesis
  proof cases
    case loop
    from en loop have lt: "w_next w < length (w_ports w)"
      by (simp add: enabled_def w_def)
    define port where "port = w_ports w ! w_next w"
    obtain res evs where sp: "scan_port P ip port timeout = (res, evs)"
      by (cases "scan_port P ip port timeout")
    define d where "d = (case res of None \<Rightarrow> {#} | Some r \<Rightarrow> {#r#})"
    from step loop sp have w': "w' = w\<lparr>w_next := Suc (w_next w),
          w_pc := (case res of None \<Rightarrow> AtLoop | Some r \<Rightarrow> AtAcquire r)\<rparr>"
      and wd': "wd' = wd\<lparr>net_log := net_log wd @ evs\<rparr>"
      by (auto simp: worker_step_def w_def port_def split: option.splits)
    have pr: "probed w' = probed w @ [port]"
      using lt by (simp add: probed_def w' port_def take_Suc_conv_app_nth)
    have nc: "\<not> in_critical w" "\<not> in_critical w'"
      using loop by (auto simp: in_critical_def w' split: option.splits)
    have h: "held w' = held w + d"
      using loop by (auto simp: held_def w' d_def split: option.splits)
    have r: "recs w' = recs w + d"
      using sp by (auto simp: recs_def pr open_records_snoc d_def split: option.splits)
    have e: "evts w' = evts w + mset evs"
      using sp by (simp add: evts_def pr probe_events_snoc)
    have sh: "sum_list (map held (ws[tid := w'])) = sum_list (map held ws) + d"
      using sum_list_map_update_add[OF tid, of held w' d] h by (simp add: w_def)
    have sr: "sum_list (map recs (ws[tid := w'])) = sum_list (map recs ws) + d"
      using sum_list_map_update_add[OF tid, of recs w' d] r by (simp add: w_def)
    have se: "sum_list (map evts (ws[tid := w'])) = sum_list (map evts ws) + mset evs"
      using sum_list_map_update_add[OF tid, of evts w' "mset evs"] e by (simp add: w_def)
    show ?thesis
    proof (rule goal)
      show "w_ports w' = w_ports w" by (simp add: w')
      show "w_next w' \<le> length (w_ports w')" using lt by (simp add: w')
      show "\<forall>k<length ws. in_critical (ws[tid := w'] ! k) = (results_lock wd' = Some k)"
        using I3 nc tid by (auto simp: nth_list_update wd' w_def)
      show "\<forall>k. results_lock wd' = Some k \<longrightarrow> k < length ws"
        using I4 by (simp add: wd')
      show "\<exists>new'. scan_results wd' = scan_results wd0 @ new'
              \<and> mset new' + sum_list (map held (ws[tid := w'])) = sum_list (map recs (ws[tid := w']))"
        using N M sh sr by (intro exI[of _ new]) (simp add: wd' add.assoc[symmetric])
      show "mset (net_log wd') = mset (net_log wd0) + sum_list (map evts (ws[tid := w']))"
        using I6 se by (simp add: wd')
      show "diag wd' = diag wd" "saved wd' = saved wd" by (simp_all add: wd')
    qed
  next
    case (acq r)
    from en acq have free: "results_lock wd = None"
      by (simp add: enabled_def w_def)
    from step acq have w': "w' = w\<lparr>w_pc := AtAppend r\<rparr>"
      and wd': "wd' = wd\<lparr>results_lock := Some tid\<rparr>"
      by (auto simp: worker_step_def w_def)
    have sh: "sum_list (map held (ws[tid := w'])) = sum_list (map held ws)"
      using sum_list_map_update_same[OF tid, of held w'] acq by (simp add: w_def w' held_def)
    have sr: "sum_list (map recs (ws[tid := w'])) = sum_list (map recs ws)"
      using sum_list_map_update_same[OF tid, of recs w'] by (simp add: w_def w' recs_def probed_def)
    have se: "sum_list (map evts (ws[tid := w'])) = sum_list (map evts ws)"
      using sum_list_map_update_same[OF tid, of evts w'] by (simp add: w_def w' evts_def probed_def)
    show ?thesis
    proof (rule goal)
      show "w_ports w' = w_ports w" by (simp add: w')
      show "w_next w' \<le> length (w_ports w')" using I2 tid by (simp add: w' w_def)
      show "\<forall>k<length ws. in_critical (ws[tid := w'] ! k) = (results_lock wd' = Some k)"
        using I3 free tid by (auto simp: nth_list_update wd' w' in_critical_def)
      show "\<forall>k. results_lock wd' = Some k \<longrightarrow> k < length ws"
        using tid by (simp add: wd')
      show "\<exists>new'. scan_results wd' = scan_results wd0 @ new'
              \<and> mset new' + sum_list (map held (ws[tid := w'])) = sum_list (map recs (ws[tid := w']))"
        using N M sh sr by (intro exI[of _ new]) (simp add: wd')
      show "mset (net_log wd') = mset (net_log wd0) + sum_list (map evts (ws[tid := w']))"
        using I6 se by (simp add: wd')
      show "diag wd' = diag wd" "saved wd' = saved wd" by (simp_all add: wd')
    qed
  next
    case (app r)
    from step app have w': "w' = w\<lparr>w_pc := AtRelease\<rparr>"
      and wd': "wd' = wd\<lparr>scan_results := scan_results wd @ [r]\<rparr>"
      by (auto simp: worker_step_def w_def)
    have "held (ws ! tid) = held w' + {#r#}"
      using app by (simp add: w_def w' held_def)
    from sum_list_map_update_sub[OF tid this]
    have sh: "sum_list (map held (ws[tid := w'])) + {#r#} = sum_list (map held ws)" .
    have sr: "sum_list (map recs (ws[tid := w'])) = sum_list (map recs ws)"
      using sum_list_map_update_same[OF tid, of recs w'] by (simp add: w_def w' recs_def probed_def)
    have se: "sum_list (map evts (ws[tid := w'])) = sum_list (map evts ws)"
      using sum_list_map_update_same[OF tid, of evts w'] by (simp add: w_def w' evts_def probed_def)
    have cs: "in_critical w" "in_critical w'"
      using app by (simp_all add: in_critical_def w')
    show ?thesis
    proof (rule goal)
      show "w_ports w' = w_ports w" by (simp add: w')
      show "w_next w' \<le> length (w_ports w')" using I2 tid by (simp add: w' w_def)
      show "\<forall>k<length ws. in_critical (ws[tid := w'] ! k) = (results_lock wd' = Some k)"
        using I3 cs tid by (auto simp: nth_list_update wd' w_def)
      show "\<forall>k. results_lock wd' = Some k \<longrightarrow> k < length ws"
        using I4 by (simp add: wd')
      have "mset (new @ [r]) + sum_list (map held (ws[tid := w']))
              = mset new + (sum_list (map held (ws[tid := w'])) + {#r#})"
        by simp
      also have "\<dots> = sum_list (map recs (ws[tid := w']))"
        using M sh sr by simp
      finally show "\<exists>new'. scan_results wd' = scan_results wd0 @ new'
              \<and> mset new' + sum_list (map held (ws[tid := w'])) = sum_list (map recs (ws[tid := w']))"
        using N by (intro exI[of _ "new @ [r]"]) (simp add: wd')
      show "mset (net_log wd') = mset (net_log wd0) + sum_list (map evts (ws[tid := w']))"
        using I6 se by (simp add: wd')
      show "diag wd' = diag wd" "saved wd' = saved wd" by (simp_all add: wd')
    qed
  next
    case rel
    from step rel have w': "w' = w\<lparr>w_pc := AtLoop\<rparr>"
      and wd': "wd' = wd\<lparr>results_lock := None\<rparr>"
      by (auto simp: worker_step_def w_def)
    have sh: "sum_list (map held (ws[tid := w'])) = sum_list (map held ws)"
      using sum_list_map_update_same[OF tid, of held w'] rel by (simp add: w_def w' held_def)
    have sr: "sum_list (map recs (ws[tid := w'])) = sum_list (map recs ws)"
      using sum_list_map_update_same[OF tid, of recs w'] by (simp add: w_def w' recs_def probed_def)
    have se: "sum_list (map evts (ws[tid := w'])) = sum_list (map evts ws)"
      using sum_list_map_update_same[OF tid, of evts w'] by (simp add: w_def w' evts_def probed_def)
    have "in_critical w"
      using rel by (simp add: in_critical_def)
    then have holder: "results_lock wd = Some tid"
      using I3 tid by (simp add: w_def)
    show ?thesis
    proof (rule goal)
      show "w_ports w' = w_ports w" by (simp add: w')
      show "w_next w' \<le> length (w_ports w')" using I2 tid by (simp add: w' w_def)
      show "\<forall>k<length ws. in_critical (ws[tid := w'] ! k) = (results_lock wd' = Some k)"
        using I3 holder tid by (auto simp: nth_list_update wd' w' in_critical_def)
      show "\<forall>k. results_lock wd' = Some k \<longrightarrow> k < length ws"
        by (simp add: wd')
      show "\<exists>new'. scan_results wd' = scan_results wd0 @ new'
              \<and> mset new' + sum_list (map held (ws[tid := w'])) = sum_list (map recs (ws[tid := w']))"
        using N M sh sr by (intro exI[of _ new]) (simp add: wd')
      show "mset (net_log wd') = mset (net_log wd0) + sum_list (map evts (ws[tid := w']))"
        using I6 se by (simp add: wd')
      show "diag wd' = diag wd" "saved wd' = saved wd" by (simp_all add: wd')
    qed
  qed
qed

lemma pool_step_inv:
  assumes "pool_inv P ip timeout batches wd0 st"
  shows "pool_inv P ip timeout batches wd0 (pool_step P ip timeout tid st)"
proof -
  obtain ws wd where st: "st = (ws, wd)"
    by (cases st)
  show ?thesis
  proof (cases "tid < length ws \<and> enabled wd (ws ! tid)")
    case True
    obtain w' wd' where step: "worker_step P ip timeout tid (ws ! tid) wd = (w', wd')"
      by (cases "worker_step P ip timeout tid (ws ! tid) wd")
    from worker_step_inv[OF assms[unfolded st] _ _ step] True
    show ?thesis by (simp add: pool_step_def st step)
  next
    case False
    then show ?thesis using assms by (auto simp: pool_step_def st)
  qed
qed

lemma run_schedule_inv:
  "pool_inv P ip timeout batches wd0 st \<Longrightarrow>
     pool_inv P ip timeout batches wd0 (run_schedule P ip timeout sched st)"
  by (induction sched arbitrary: st) (simp_all add: pool_step_inv)

lemma run_schedule_append:
  "run_schedule P ip timeout (s1 @ s2) st
     = run_schedule P ip timeout s2 (run_schedule P ip timeout s1 st)"
  by (induction s1 arbitrary: st) simp_all

lemma drain_is_schedule:
  "\<exists>sched. drain P ip timeout st = run_schedule P ip timeout sched st"
proof (induction P ip timeout st rule: drain.induct)
  case (1 P ip timeout st)
  show ?case
  proof (cases "find (\<lambda>tid. enabled (snd st) (fst st ! tid)) [0..<length (fst st)]")
    case None
    then have "drain P ip timeout st = run_schedule P ip timeout [] st"
      by (subst drain.simps) simp
    then show ?thesis by blast
  next
    case (Some tid)
    from 1[OF Some] obtain sched where
      "drain P ip timeout (pool_step P ip timeout tid st)
         = run_schedule P ip timeout sched (pool_step P ip timeout tid st)"
      by blast
    then have "drain P ip timeout st = run_schedule P ip timeout (tid # sched) st"
      using Some by (subst drain.simps) simp
    then show ?thesis by blast
  qed
qed

lemma drain_inv:
  "pool_inv P ip timeout batches wd0 st \<Longrightarrow>
     pool_inv P ip timeout batches wd0 (drain P ip timeout st)"
  using drain_is_schedule[of P ip timeout st] run_schedule_inv by metis

lemma drain_quiescent:
  "tid < length (fst (drain P ip timeout st)) \<Longrightarrow>
     \<not> enabled (snd (drain P ip timeout st)) (fst (drain P ip timeout st) ! tid)"
proof (induction P ip timeout st rule: drain.induct)
  case (1 P ip timeout st)
  show ?case
  proof (cases "find (\<lambda>tid. enabled (snd st) (fst st ! tid)) [0..<length (fst st)]")
    case None
    then have d: "drain P ip timeout st = st"
      by (subst drain.simps) simp
    from None have "\<forall>k<length (fst st). \<not> enabled (snd st) (fst st ! k)"
      by (auto simp: find_None_iff)
    then show ?thesis using 1(2) d by simp
  next
    case (Some k)
    then have d: "drain P ip timeout st = drain P ip timeout (pool_step P ip timeout k st)"
      by (subst drain.simps) simp
    from 1(1)[OF Some] 1(2) show ?thesis by (simp add: d)
  qed
qed

lemma initial_pool_inv:
  assumes "results_lock wd = None"
  shows "pool_inv P ip timeout batches wd (map new_worker batches, wd)"
proof -
  have p: "map w_ports (map new_worker batches) = batches"
    by (induction batches) (simp_all add: new_worker_def)
  have h: "sum_list (map held (map new_worker batches)) = {#}"
    by (induction batches) (simp_all add: new_worker_def held_def)
  have r: "sum_list (map (\<lambda>w. mset (open_records P ip timeout (probed w))) (map new_worker batches)) = {#}"
    by (induction batches) (simp_all add: new_worker_def probed_def open_records_def List.map_filter_def)
  have e: "sum_list (map (\<lambda>w. mset (probe_events P ip timeout (probed w))) (map new_worker batches)) = {#}"
    by (induction batches) (simp_all add: new_worker_def probed_def probe_events_def)
  have c: "\<forall>tid<length batches. \<not> in_critical (map new_worker batches ! tid)"
    by (simp add: new_worker_def in_critical_def)
  have n: "\<forall>tid<length batches. w_next (map new_worker batches ! tid) = 0"
    by (simp add: new_worker_def)
  show ?thesis
    unfolding pool_inv_def using assms p h r e c n by simp
qed

lemma quiescent_finished:
  assumes inv: "pool_inv P ip timeout batches wd0 (ws, wd)"
    and q: "\<forall>tid<length ws. \<not> enabled wd (ws ! tid)"
  shows "results_lock wd = None \<and> (\<forall>tid<length ws. finished (ws ! tid))"
proof -
  from inv have I2: "\<forall>k<length ws. w_next (ws ! k) \<le> length (w_ports (ws ! k))"
    and I3: "\<forall>k<length ws. in_critical (ws ! k) = (results_lock wd = Some k)"
    and I4: "\<forall>k. results_lock wd = Some k \<longrightarrow> k < length ws"
    by (simp_all add: pool_inv_def)
  have free: "results_lock wd = None"
  proof (cases "results_lock wd")
    case None
    then show ?thesis .
  next
    case (Some k)
    with I3 I4 have "k < length ws" "in_critical (ws ! k)" by auto
    then have "enabled wd (ws ! k)"
      by (auto simp: in_critical_def enabled_def split: pc.splits)
    with q \<open>k < length ws\<close> show ?thesis by blast
  qed
  have "finished (ws ! tid)" if "tid < length ws" for tid
  proof -
    from q that have ne: "\<not> enabled wd (ws ! tid)" by blast
    then have "w_pc (ws ! tid) = AtLoop"
      using free by (cases "w_pc (ws ! tid)") (simp_all add: enabled_def)
    moreover from this ne have "\<not> w_next (ws ! tid) < length (w_ports (ws ! tid))"
      by (simp add: enabled_def)
    ultimately show ?thesis
      using I2 that by (simp add: finished_def le_antisym)
  qed
  with free show ?thesis by blast
qed

lemma finished_sums:
  assumes "\<forall>tid<length ws. finished (ws ! tid)"
  shows "sum_list (map held ws) = {#}"
    and "sum_list (map (\<lambda>w. f (probed w)) ws) = sum_list (map f (map w_ports ws))"
proof -
  from assms have a: "\<forall>w\<in>set ws. finished w"
    by (auto simp: in_set_conv_nth)
  then have "\<forall>w\<in>set ws. held w = {#}"
    by (auto simp: finished_def held_def)
  then show "sum_list (map held ws) = {#}"
    by (induction ws) simp_all
  from a have m: "map (\<lambda>w. f (probed w)) ws = map (\<lambda>w. f (w_ports w)) ws"
    by (intro map_cong) (auto simp: finished_def probed_def)
  have "sum_list (map (\<lambda>w. f (probed w)) ws) = sum_list (map (\<lambda>w. f (w_ports w)) ws)"
    by (simp only: m)
  also have "\<dots> = sum_list (map f (map w_ports ws))"
    by (simp add: comp_def)
  finally show "sum_list (map (\<lambda>w. f (probed w)) ws) = sum_list (map f (map w_ports ws))" .
qed

lemma pool_run_complete:
  assumes free: "results_lock wd = None"
    and fin: "final = drain P ip timeout (run_schedule P ip timeout sched (map new_worker batches, wd))"
  shows "map w_ports (fst final) = batches"
    and "\<forall>tid<length (fst final). finished (fst final ! tid)"
    and "results_lock (snd final) = None"
    and "\<exists>new. scan_results (snd final) = scan_results wd @ new
            \<and> mset new = mset (open_records P ip timeout (concat batches))"
    and "mset (net_log (snd final)) = mset (net_log wd) + mset (probe_events P ip timeout (concat batches))"
    and "diag (snd final) = diag wd" and "saved (snd final) = saved wd"
proof -
  obtain ws wd' where f: "final = (ws, wd')"
    by (cases final)
  have inv: "pool_inv P ip timeout batches wd (ws, wd')"
    using drain_inv[OF run_schedule_inv[OF initial_pool_inv[OF free]]] fin f by metis
  have d: "drain P ip timeout (run_schedule P ip timeout sched (map new_worker batches, wd)) = (ws, wd')"
    using fin f by simp
  have "\<not> enabled wd' (ws ! tid)" if "tid < length ws" for tid
    using drain_quiescent[of tid P ip timeout
        "run_schedule P ip timeout sched (map new_worker batches, wd)"] that
    by (simp add: d)
  then have q: "\<forall>tid<length ws. \<not> enabled wd' (ws ! tid)"
    by blast
  note quiet = quiescent_finished[OF inv q]
  from quiet have allfin: "\<forall>tid<length ws. finished (ws ! tid)" by blast
  from inv have ports: "map w_ports ws = batches"
    by (simp add: pool_inv_def)
  from inv obtain new where N: "scan_results wd' = scan_results wd @ new"
    and M: "mset new + sum_list (map held ws)
              = sum_list (map (\<lambda>w. mset (open_records P ip timeout (probed w))) ws)"
    by (auto simp: pool_inv_def)
  have "mset new = mset (open_records P ip timeout (concat batches))"
    using M finished_sums(1)[OF allfin]
      finished_sums(2)[OF allfin, of "\<lambda>ports. mset (open_records P ip timeout ports)"]
    by (simp add: ports open_records_concat)
  with N show "\<exists>new. scan_results (snd final) = scan_results wd @ new
            \<and> mset new = mset (open_records P ip timeout (concat batches))"
    using f by auto
  from inv have "mset (net_log wd')
           = mset (net_log wd) + sum_list (map (\<lambda>w. mset (probe_events P ip timeout (probed w))) ws)"
    by (simp add: pool_inv_def)
  then show "mset (net_log (snd final)) = mset (net_log wd) + mset (probe_events P ip timeout (concat batches))"
    using finished_sums(2)[OF allfin, of "\<lambda>ports. mset (probe_events P ip timeout ports)"] f
    by (simp add: ports probe_events_concat)
  show "map w_ports (fst final) = batches" using ports f by simp
  show "\<forall>tid<length (fst final). finished (fst final ! tid)" using allfin f by simp
  show "results_lock (snd final) = None" using quiet f by simp
  show "diag (snd final) = diag wd" "saved (snd final) = saved wd"
    using inv f by (simp_all add: pool_inv_def)
qed

section \<open>Properties of the scan\<close>

lemma scan_port_open_iff:
  "(fst (scan_port P ip port timeout) \<noteq> None) =
     (io_socket (net P ip port timeout) = None \<and> 0 \<le> timeout
      \<and> (io_connect (net P ip port timeout) = None
           \<or> io_connect (net P ip port timeout) = Some BlockingIOError)
      \<and> fst (poll_loop (io_polls (net P ip port timeout))))"
  by (auto simp: scan_port_def scan_port_try_def with_sock_def after_connect_def Let_def
      split: option.splits prod.splits sum.splits if_splits)

lemma scan_port_try_raises:
  "fst (scan_port_try P ip port timeout) = Inl e \<Longrightarrow> fst (scan_port P ip port timeout) = None"
  by (auto simp: scan_port_def split: prod.splits sum.splits option.splits)

text \<open>
  Claim C4. \<open>scan_port\<close> reports a port open only when the socket was created, the
  timeout accepted, the first \<open>connect\<close> returned or raised \<open>BlockingIOError\<close>, and a
  poll answered 0 before the deadline; in every other case, and whenever its \<open>try\<close>
  block ends in an exception, it returns \<open>None\<close>. Whatever the probes answer and
  however the threads interleave, every thread of the pool runs its loop to the end
  of its batch: the socket calls made are those of every port of every batch, and the
  collection gains exactly the records of the open ports of all batches.
\<close>

theorem probe_failures_do_not_abort:
  "((fst (scan_port P ip port timeout) \<noteq> None) =
      (io_socket (net P ip port timeout) = None \<and> 0 \<le> timeout
       \<and> (io_connect (net P ip port timeout) = None
            \<or> io_connect (net P ip port timeout) = Some BlockingIOError)
       \<and> fst (poll_loop (io_polls (net P ip port timeout)))))
   \<and> (\<forall>e. fst (scan_port_try P ip port timeout) = Inl e \<longrightarrow>
          fst (scan_port P ip port timeout) = None)
   \<and> (results_lock wd = None \<longrightarrow>
        (let final = drain P ip timeout
                       (run_schedule P ip timeout sched (map new_worker batches, wd))
         in map w_ports (fst final) = batches
            \<and> (\<forall>tid<length (fst final). finished (fst final ! tid))
            \<and> mset (net_log (snd final))
                 = mset (net_log wd) + mset (probe_events P ip timeout (concat batches))
            \<and> (\<exists>new. scan_results (snd final) = scan_results wd @ new
                   \<and> mset new = mset (open_records P ip timeout (concat batches)))))"
proof -
  have "results_lock wd = None \<Longrightarrow>
        (let final = drain P ip timeout
                       (run_schedule P ip timeout sched (map new_worker batches, wd))
         in map w_ports (fst final) = batches
            \<and> (\<forall>tid<length (fst final). finished (fst final ! tid))
            \<and> mset (net_log (snd final))
                 = mset (net_log wd) + mset (probe_events P ip timeout (concat batches))
            \<and> (\<exists>new. scan_results (snd final) = scan_results wd @ new
                   \<and> mset new = mset (open_records P ip timeout (concat batches))))"
    using pool_run_complete(1,2,4,5)[OF _ refl, of wd P ip timeout sched batches]
    unfolding Let_def by blast
  then show ?thesis
    using scan_port_open_iff[of P ip port timeout] scan_port_try_raises[of P ip port timeout]
    by blast
qed

theorem probe_failures_do_not_abort_witness:
  "fst (scan_port_try demo_platform ''::1'' 23 (3 / 10)) = Inl GaiError
   \<and> fst (scan_port demo_platform ''::1'' 23 (3 / 10)) = None
   \<and> results_lock initial_world = None
   \<and> map r_port (scan_results (snd (drain demo_platform ''127.0.0.1'' (3 / 10)
           (run_schedule demo_platform ''127.0.0.1'' (3 / 10) [1, 0, 1]
              (map new_worker [[20, 21], [22, 23]], initial_world))))) = [22, 21]
   \<and> map w_next (fst (drain demo_platform ''127.0.0.1'' (3 / 10)
           (run_schedule demo_platform ''127.0.0.1'' (3 / 10) [1, 0, 1]
              (map new_worker [[20, 21], [22, 23]], initial_world)))) = [2, 2]
   \<and> map w_ports (fst (drain demo_platform ''127.0.0.1'' (3 / 10)
           (run_schedule demo_platform ''127.0.0.1'' (3 / 10) [1, 0, 1]
              (map new_worker [[20, 21], [22, 23]], initial_world)))) = [[20, 21], [22, 23]]"
proof -
  have a: "fst (scan_port_try demo_platform ''::1'' 23 (3 / 10)) = Inl GaiError"
    by (simp add: scan_port_try_def with_sock_def demo_platform_def demo_io_def)
  have b: "results_lock initial_world = None"
    by (simp add: initial_world_def)
  have c: "map r_port (scan_results (snd (drain demo_platform ''127.0.0.1'' (3 / 10)
           (run_schedule demo_platform ''127.0.0.1'' (3 / 10) [1, 0, 1]
              (map new_worker [[20, 21], [22, 23]], initial_world))))) = [22, 21]"
    by code_simp
  have d: "map w_next (fst (drain demo_platform ''127.0.0.1'' (3 / 10)
           (run_schedule demo_platform ''127.0.0.1'' (3 / 10) [1, 0, 1]
              (map new_worker [[20, 21], [22, 23]], initial_world)))) = [2, 2]"
    by code_simp
  from probe_failures_do_not_abort[of demo_platform "''::1''" 23 "3 / 10" initial_world
      "[1, 0, 1]" "[[20, 21], [22, 23]]"]
    probe_failures_do_not_abort[of demo_platform "''127.0.0.1''" 23 "3 / 10" initial_world
      "[1, 0, 1]" "[[20, 21], [22, 23]]"]
  show ?thesis
    using a b c d unfolding Let_def by blast
qed

lemma pool_step_append_only:
  assumes "scan_results (snd (pool_step P ip timeout tid (ws, wd))) \<noteq> scan_results wd"
  shows "tid < length ws \<and> (\<exists>r. w_pc (ws ! tid) = AtAppend r
           \<and> scan_results (snd (pool_step P ip timeout tid (ws, wd))) = scan_results wd @ [r])"
proof -
  from assms have en: "tid < length ws \<and> enabled wd (ws ! tid)"
    by (auto simp: pool_step_def split: if_splits)
  with assms show ?thesis
    by (cases "w_pc (ws ! tid)")
      (auto simp: pool_step_def worker_step_def split: prod.splits option.splits)
qed

lemma fast_scan_Inr:
  assumes "fast_scan P sched ip start_port end_port max_threads timeout wd = Inr wd'"
  shows "\<exists>batches. batch_ports start_port end_port (max_threads div 2) = Inr batches
           \<and> concat batches = [start_port..end_port]
           \<and> 2 \<le> max_threads
           \<and> wd' = snd (drain P ip timeout
                          (run_schedule P ip timeout sched (map new_worker batches, wd)))"
proof -
  from assms obtain batches where
    b: "batch_ports start_port end_port (max_threads div 2) = Inr batches"
    and pos: "0 < max_threads"
    and w: "wd' = snd (drain P ip timeout
                          (run_schedule P ip timeout sched (map new_worker batches, wd)))"
    by (auto simp: fast_scan_def split: sum.splits if_splits)
  from b have nz: "max_threads div 2 \<noteq> 0"
    by (auto simp: batch_ports_def py_range_def Let_def split: if_splits)
  with pos have size: "0 < max_threads div 2" and two: "2 \<le> max_threads"
    by simp_all
  define ports where "ports = py_range_pos start_port (end_port + 1) 1"
  from b size have "batches = map (\<lambda>i. py_slice ports i (i + max_threads div 2))
                       (py_range_pos 0 (int (length ports)) (max_threads div 2))"
    by (auto simp: batch_ports_def py_range_def ports_def Let_def)
  then have "concat batches = ports"
    using concat_chunks[of 0 "max_threads div 2" ports] size by simp
  then show ?thesis
    using b two w by (simp add: ports_def range_pos_one)
qed

text \<open>
  Claim C8. Started with the lock free, in every state the pool can reach (after any
  schedule) at most one thread is inside \<open>with results_lock\<close>, and it is the one
  holding the lock; a step changes the collection only by one \<open>append\<close>, made by the
  thread that holds the lock. When the pool has run to the end, which is a
  continuation of the schedule, every thread has finished, the lock is free and the
  collection is its initial content followed by the records of all open ports of all
  batches, none missing and none twice. \<open>fast_scan\<close> returns the state of such an end.
\<close>

theorem appends_are_mutually_exclusive:
  assumes "results_lock wd = None"
  shows
    "(let st = run_schedule P ip timeout sched (map new_worker batches, wd) in
        (\<forall>i<length (fst st). \<forall>j<length (fst st).
            in_critical (fst st ! i) \<and> in_critical (fst st ! j) \<longrightarrow> i = j)
      \<and> (\<forall>i<length (fst st). in_critical (fst st ! i) = (results_lock (snd st) = Some i))
      \<and> (\<forall>tid. scan_results (snd (pool_step P ip timeout tid st)) \<noteq> scan_results (snd st) \<longrightarrow>
            tid < length (fst st) \<and> results_lock (snd st) = Some tid
            \<and> (\<exists>r. w_pc (fst st ! tid) = AtAppend r
                  \<and> scan_results (snd (pool_step P ip timeout tid st))
                      = scan_results (snd st) @ [r])))
     \<and> (let final = drain P ip timeout
                       (run_schedule P ip timeout sched (map new_worker batches, wd)) in
          (\<exists>sched'. final = run_schedule P ip timeout (sched @ sched') (map new_worker batches, wd))
        \<and> (\<forall>tid<length (fst final). finished (fst final ! tid))
        \<and> results_lock (snd final) = None
        \<and> (\<exists>new. scan_results (snd final) = scan_results wd @ new
               \<and> mset new = mset (open_records P ip timeout (concat batches))))
     \<and> (\<forall>start_port end_port max_threads wd'.
           fast_scan P sched ip start_port end_port max_threads timeout wd = Inr wd' \<longrightarrow>
             (\<exists>bs ws. batch_ports start_port end_port (max_threads div 2) = Inr bs
                 \<and> drain P ip timeout (run_schedule P ip timeout sched (map new_worker bs, wd))
                      = (ws, wd')
                 \<and> map w_ports ws = bs \<and> (\<forall>tid<length ws. finished (ws ! tid))))"
proof -
  define st where "st = run_schedule P ip timeout sched (map new_worker batches, wd)"
  obtain ws wd1 where s: "st = (ws, wd1)"
    by (cases st)
  have inv: "pool_inv P ip timeout batches wd (ws, wd1)"
    using run_schedule_inv[OF initial_pool_inv[OF assms]] s st_def by metis
  then have lock: "\<forall>i<length ws. in_critical (ws ! i) = (results_lock wd1 = Some i)"
    by (simp add: pool_inv_def)
  then have excl: "\<forall>i<length ws. \<forall>j<length ws. in_critical (ws ! i) \<and> in_critical (ws ! j) \<longrightarrow> i = j"
    by auto
  have app: "tid < length ws \<and> results_lock wd1 = Some tid
            \<and> (\<exists>r. w_pc (ws ! tid) = AtAppend r
                  \<and> scan_results (snd (pool_step P ip timeout tid (ws, wd1))) = scan_results wd1 @ [r])"
    if "scan_results (snd (pool_step P ip timeout tid (ws, wd1))) \<noteq> scan_results wd1" for tid
  proof -
    from pool_step_append_only[OF that] obtain r where
      t: "tid < length ws" and pc: "w_pc (ws ! tid) = AtAppend r"
      and r: "scan_results (snd (pool_step P ip timeout tid (ws, wd1))) = scan_results wd1 @ [r]"
      by blast
    from pc have "in_critical (ws ! tid)"
      by (simp add: in_critical_def)
    with lock t have "results_lock wd1 = Some tid" by simp
    with t pc r show ?thesis by blast
  qed
  have part1: "(let st = run_schedule P ip timeout sched (map new_worker batches, wd) in
        (\<forall>i<length (fst st). \<forall>j<length (fst st).
            in_critical (fst st ! i) \<and> in_critical (fst st ! j) \<longrightarrow> i = j)
      \<and> (\<forall>i<length (fst st). in_critical (fst st ! i) = (results_lock (snd st) = Some i))
      \<and> (\<forall>tid. scan_results (snd (pool_step P ip timeout tid st)) \<noteq> scan_results (snd st) \<longrightarrow>
            tid < length (fst st) \<and> results_lock (snd st) = Some tid
            \<and> (\<exists>r. w_pc (fst st ! tid) = AtAppend r
                  \<and> scan_results (snd (pool_step P ip timeout tid st))
                      = scan_results (snd st) @ [r])))"
    using excl lock app unfolding Let_def st_def[symmetric] s by simp
  have cont: "\<exists>sched'. drain P ip timeout st
                 = run_schedule P ip timeout (sched @ sched') (map new_worker batches, wd)"
    using drain_is_schedule[of P ip timeout st] by (auto simp: run_schedule_append st_def)
  have part2: "(let final = drain P ip timeout
                       (run_schedule P ip timeout sched (map new_worker batches, wd)) in
          (\<exists>sched'. final = run_schedule P ip timeout (sched @ sched') (map new_worker batches, wd))
        \<and> (\<forall>tid<length (fst final). finished (fst final ! tid))
        \<and> results_lock (snd final) = None
        \<and> (\<exists>new. scan_results (snd final) = scan_results wd @ new
               \<and> mset new = mset (open_records P ip timeout (concat batches))))"
    using cont pool_run_complete(2,3,4)[OF assms refl, of P ip timeout sched batches]
    unfolding Let_def st_def by blast
  have part3: "\<exists>bs ws. batch_ports start_port end_port (max_threads div 2) = Inr bs
                 \<and> drain P ip timeout (run_schedule P ip timeout sched (map new_worker bs, wd))
                      = (ws, wd')
                 \<and> map w_ports ws = bs \<and> (\<forall>tid<length ws. finished (ws ! tid))"
    if f: "fast_scan P sched ip start_port end_port max_threads timeout wd = Inr wd'"
    for start_port end_port max_threads wd'
  proof -
    from fast_scan_Inr[OF f] obtain bs where
      b: "batch_ports start_port end_port (max_threads div 2) = Inr bs"
      and w: "wd' = snd (drain P ip timeout (run_schedule P ip timeout sched (map new_worker bs, wd)))"
      by blast
    define final where "final = drain P ip timeout (run_schedule P ip timeout sched (map new_worker bs, wd))"
    have "final = (fst final, wd')"
      using w by (simp add: final_def)
    moreover note pool_run_complete(1,2)[OF assms final_def]
    ultimately show ?thesis
      using b unfolding final_def by blast
  qed
  show ?thesis
    using part1 part2 part3 by blast
qed

theorem appends_are_mutually_exclusive_witness:
  "results_lock initial_world = None
   \<and> map in_critical (fst (run_schedule demo_platform ''127.0.0.1'' (3 / 10) [0, 1, 0, 1]
        (map new_worker [[21], [22]], initial_world))) = [True, False]
   \<and> results_lock (snd (run_schedule demo_platform ''127.0.0.1'' (3 / 10) [0, 1, 0, 1]
        (map new_worker [[21], [22]], initial_world))) = Some 0
   \<and> map r_port (scan_results (snd (pool_step demo_platform ''127.0.0.1'' (3 / 10) 0
        (run_schedule demo_platform ''127.0.0.1'' (3 / 10) [0, 1, 0, 1]
          (map new_worker [[21], [22]], initial_world))))) = [21]
   \<and> scan_results (snd (run_schedule demo_platform ''127.0.0.1'' (3 / 10) [0, 1, 0, 1]
        (map new_worker [[21], [22]], initial_world))) = []
   \<and> map r_port (scan_results (snd (drain demo_platform ''127.0.0.1'' (3 / 10)
        (run_schedule demo_platform ''127.0.0.1'' (3 / 10) [0, 1, 0, 1]
          (map new_worker [[21], [22]], initial_world))))) = [21, 22]"
proof -
  have a: "results_lock initial_world = None"
    by (simp add: initial_world_def)
  have b: "map in_critical (fst (run_schedule demo_platform ''127.0.0.1'' (3 / 10) [0, 1, 0, 1]
        (map new_worker [[21], [22]], initial_world))) = [True, False]"
    by code_simp
  have c: "results_lock (snd (run_schedule demo_platform ''127.0.0.1'' (3 / 10) [0, 1, 0, 1]
        (map new_worker [[21], [22]], initial_world))) = Some 0"
    by code_simp
  have d: "map r_port (scan_results (snd (pool_step demo_platform ''127.0.0.1'' (3 / 10) 0
        (run_schedule demo_platform ''127.0.0.1'' (3 / 10) [0, 1, 0, 1]
          (map new_worker [[21], [22]], initial_world))))) = [21]"
    by code_simp
  have e: "scan_results (snd (run_schedule demo_platform ''127.0.0.1'' (3 / 10) [0, 1, 0, 1]
        (map new_worker [[21], [22]], initial_world))) = []"
    by code_simp
  have f: "map r_port (scan_results (snd (drain demo_platform ''127.0.0.1'' (3 / 10)
        (run_schedule demo_platform ''127.0.0.1'' (3 / 10) [0, 1, 0, 1]
          (map new_worker [[21], [22]], initial_world))))) = [21, 22]"
    by code_simp
  from appends_are_mutually_exclusive[OF a, of demo_platform "''127.0.0.1''" "3 / 10"
      "[0, 1, 0, 1]" "[[21], [22]]"]
  show ?thesis
    using a b c d e f by blast
qed

text \<open>
  Claim C6 fails as stated: \<open>fast_scan\<close> does not start from an empty collection but
  appends to the module-level list. Scanning ports 21 and 22 of the sample host twice
  in one process, the collection read after the second scan holds the records of the
  first scan as well.
\<close>

theorem second_scan_keeps_first_results_counterexample:
  "scan_twice demo_platform [] [] ''127.0.0.1'' 21 22 2 (3 / 10) initial_world =
     Inr ([\<lparr>r_ip = ''127.0.0.1'', r_port = 21, r_status = ''open'', r_service = ''FTP'',
             r_banner = [82, 69, 65, 68, 89], r_timestamp = ''2024-01-01T00:00:00''\<rparr>,
           \<lparr>r_ip = ''127.0.0.1'', r_port = 22, r_status = ''open'', r_service = ''SSH'',
             r_banner = [], r_timestamp = ''2024-01-01T00:00:00''\<rparr>],
          [\<lparr>r_ip = ''127.0.0.1'', r_port = 21, r_status = ''open'', r_service = ''FTP'',
             r_banner = [82, 69, 65, 68, 89], r_timestamp = ''2024-01-01T00:00:00''\<rparr>,
           \<lparr>r_ip = ''127.0.0.1'', r_port = 22, r_status = ''open'', r_service = ''SSH'',
             r_banner = [], r_timestamp = ''2024-01-01T00:00:00''\<rparr>,
           \<lparr>r_ip = ''127.0.0.1'', r_port = 21, r_status = ''open'', r_service = ''FTP'',
             r_banner = [82, 69, 65, 68, 89], r_timestamp = ''2024-01-01T00:00:00''\<rparr>,
           \<lparr>r_ip = ''127.0.0.1'', r_port = 22, r_status = ''open'', r_service = ''SSH'',
             r_banner = [], r_timestamp = ''2024-01-01T00:00:00''\<rparr>])"
  by code_simp

text \<open>
  Claim C6, amended. A scan that returns leaves the collection as it found it,
  followed by one record for each open port of the range, in some order, and leaves
  the lock free. So the first scan of a process, which finds the collection empty,
  yields exactly the records of the open ports, and every later scan in the same
  process yields the earlier content followed by such records.
\<close>

theorem fast_scan_appends_to_shared_collection:
  assumes "results_lock wd = None"
    and "fast_scan P sched ip start_port end_port max_threads timeout wd = Inr wd'"
  shows "(\<exists>new. scan_results wd' = scan_results wd @ new
            \<and> mset new = mset (open_records P ip timeout [start_port..end_port]))
         \<and> results_lock wd' = None"
proof -
  from fast_scan_Inr[OF assms(2)] obtain batches where
    c: "concat batches = [start_port..end_port]"
    and w: "wd' = snd (drain P ip timeout
                          (run_schedule P ip timeout sched (map new_worker batches, wd)))"
    by blast
  from pool_run_complete(3,4)[OF assms(1) refl, of P ip timeout sched batches]
  show ?thesis
    using c w by simp
qed

theorem fast_scan_appends_to_shared_collection_witness:
  "results_lock initial_world = None
   \<and> map_sum id (map r_port \<circ> scan_results)
        (fast_scan demo_platform [1, 0] ''127.0.0.1'' 20 23 2 (3 / 10) initial_world) = Inr [21, 22]
   \<and> map r_port (open_records demo_platform ''127.0.0.1'' (3 / 10) [20..23]) = [21, 22]"
proof -
  have a: "results_lock initial_world = None"
    by (simp add: initial_world_def)
  have b: "map_sum id (map r_port \<circ> scan_results)
        (fast_scan demo_platform [1, 0] ''127.0.0.1'' 20 23 2 (3 / 10) initial_world) = Inr [21, 22]"
    by code_simp
  have c: "map r_port (open_records demo_platform ''127.0.0.1'' (3 / 10) [20..23]) = [21, 22]"
    by code_simp
  from b obtain wd' where
    f: "fast_scan demo_platform [1, 0] ''127.0.0.1'' 20 23 2 (3 / 10) initial_world = Inr wd'"
    by (cases "fast_scan demo_platform [1, 0] ''127.0.0.1'' 20 23 2 (3 / 10) initial_world") auto
  from fast_scan_appends_to_shared_collection[OF a f]
  show ?thesis
    using a b c by blast
qed

section \<open>The banner flag and the address family\<close>

text \<open>
  Claim C9 fails: \<open>main\<close> never reads \<open>args.banner\<close> and \<open>fast_scan\<close> has no parameter
  for it, so a run without \<open>--banner\<close> is the run with it. On the sample host, without
  the flag, the probe of port 21 still reads from the socket and the record that is
  saved carries the banner \<open>READY\<close>.
\<close>

theorem banner_flag_is_ignored:
  "main P sched (args\<lparr>a_banner := False\<rparr>) wd = main P sched (args\<lparr>a_banner := True\<rparr>) wd
   \<and> main demo_platform []
        \<lparr>a_ip = ''127.0.0.1'', a_ports = ''21'', a_threads = 200, a_timeout = 3 / 10,
         a_output = ''scan_results.json'', a_banner = False\<rparr> initial_world =
       Inr \<lparr>scan_results =
              [\<lparr>r_ip = ''127.0.0.1'', r_port = 21, r_status = ''open'', r_service = ''FTP'',
                r_banner = [82, 69, 65, 68, 89], r_timestamp = ''2024-01-01T00:00:00''\<rparr>],
            results_lock = None,
            net_log =
              [EvSocket AF_INET, EvSetTimeout (3 / 10), EvSetBlocking False,
               EvConnect ''127.0.0.1'' 21, EvConnectEx ''127.0.0.1'' 21,
               EvConnectEx ''127.0.0.1'' 21, EvSetTimeout 1, EvRecv 1024, EvClose],
            diag = [],
            saved = Some (''scan_results.json'',
              [\<lparr>r_ip = ''127.0.0.1'', r_port = 21, r_status = ''open'', r_service = ''FTP'',
                r_banner = [82, 69, 65, 68, 89], r_timestamp = ''2024-01-01T00:00:00''\<rparr>])\<rparr>"
proof -
  have "main P sched (args\<lparr>a_banner := False\<rparr>) wd = main P sched (args\<lparr>a_banner := True\<rparr>) wd"
    by (simp add: main_def Let_def split: sum.splits prod.splits)
  moreover have "main demo_platform []
        \<lparr>a_ip = ''127.0.0.1'', a_ports = ''21'', a_threads = 200, a_timeout = 3 / 10,
         a_output = ''scan_results.json'', a_banner = False\<rparr> initial_world =
       Inr \<lparr>scan_results =
              [\<lparr>r_ip = ''127.0.0.1'', r_port = 21, r_status = ''open'', r_service = ''FTP'',
                r_banner = [82, 69, 65, 68, 89], r_timestamp = ''2024-01-01T00:00:00''\<rparr>],
            results_lock = None,
            net_log =
              [EvSocket AF_INET, EvSetTimeout (3 / 10), EvSetBlocking False,
               EvConnect ''127.0.0.1'' 21, EvConnectEx ''127.0.0.1'' 21,
               EvConnectEx ''127.0.0.1'' 21, EvSetTimeout 1, EvRecv 1024, EvClose],
            diag = [],
            saved = Some (''scan_results.json'',
              [\<lparr>r_ip = ''127.0.0.1'', r_port = 21, r_status = ''open'', r_service = ''FTP'',
                r_banner = [82, 69, 65, 68, 89], r_timestamp = ''2024-01-01T00:00:00''\<rparr>])\<rparr>"
    by code_simp
  ultimately show ?thesis by blast
qed






end
